theory Spec2Isabelle
  imports Complex_Main "HOL-Library.Word" "HOL-Library.Log_Nat"
begin

section \<open>JavaScript strings\<close>

text \<open>
  A JavaScript string is a sequence of 16-bit code units. String literals of the source
  are all ASCII; \<open>str\<close> turns an Isabelle literal into its code units.
\<close>

type_synonym unit16 = "16 word"
type_synonym jsstring = "unit16 list"

definition u16 :: "char \<Rightarrow> unit16" where
  "u16 c = of_nat (of_char c)"

definition str :: "string \<Rightarrow> jsstring" where
  "str s = map u16 s"

definition LBRACE :: unit16 where "LBRACE = 0x7B"
definition RBRACE :: unit16 where "RBRACE = 0x7D"
definition BACKTICK :: unit16 where "BACKTICK = 0x60"

subsection \<open>\<open>String.prototype.trim\<close>\<close>

text \<open>
  \<open>trim\<close> removes WhiteSpace and LineTerminator code units from both ends: TAB, LF, VT,
  FF, CR, SP, NBSP, U+1680, U+2000..U+200A, LS, PS, U+202F, U+205F, U+3000 and U+FEFF.
\<close>

definition is_js_space :: "unit16 \<Rightarrow> bool" where
  "is_js_space c \<longleftrightarrow>
     c = 0x09 \<or> c = 0x0A \<or> c = 0x0B \<or> c = 0x0C \<or> c = 0x0D \<or> c = 0x20 \<or> c = 0xA0 \<or>
     c = 0x1680 \<or> (0x2000 \<le> c \<and> c \<le> 0x200A) \<or> c = 0x2028 \<or> c = 0x2029 \<or>
     c = 0x202F \<or> c = 0x205F \<or> c = 0x3000 \<or> c = 0xFEFF"

definition js_trim :: "jsstring \<Rightarrow> jsstring" where
  "js_trim s = rev (dropWhile is_js_space (rev (dropWhile is_js_space s)))"

subsection \<open>\<open>String.prototype.replace\<close> with a global literal pattern\<close>

text \<open>
  \<open>s.replace(/pat/g, rep)\<close> for a pattern without metacharacters. The regular expression
  is executed repeatedly from \<open>lastIndex\<close>: each execution tries the positions
  \<open>lastIndex, lastIndex + 1, \<dots>\<close> in turn and fails once the position is beyond the
  end of the string. After a match, \<open>lastIndex\<close> is the end of the match (one further
  when the match is empty), and the text between the previous match and this one is
  copied to the result, followed by the replacement.
\<close>

definition matches_at :: "jsstring \<Rightarrow> jsstring \<Rightarrow> nat \<Rightarrow> bool" where
  "matches_at pat s i \<longleftrightarrow> take (length pat) (drop i s) = pat"

function regexp_exec :: "jsstring \<Rightarrow> jsstring \<Rightarrow> nat \<Rightarrow> nat option" where
  "regexp_exec pat s i =
     (if length s < i then None
      else if matches_at pat s i then Some i
      else regexp_exec pat s (Suc i))"
  by pat_completeness auto
termination
  by (relation "measure (\<lambda>(pat, s, i). Suc (length s) - i)") auto

declare regexp_exec.simps [simp del]

function replace_loop :: "jsstring \<Rightarrow> jsstring \<Rightarrow> jsstring \<Rightarrow> nat \<Rightarrow> nat \<Rightarrow> jsstring" where
  "replace_loop pat rep s lastIndex nextSourcePosition =
     (case regexp_exec pat s lastIndex of
        None \<Rightarrow> drop nextSourcePosition s
      | Some position \<Rightarrow>
          take (position - nextSourcePosition) (drop nextSourcePosition s) @ rep @
          replace_loop pat rep s
            (if pat = [] then Suc position else position + length pat)
            (position + length pat))"
  by pat_completeness auto
termination
proof (relation "measure (\<lambda>(pat, rep, s, i, n). Suc (length s) - i)", goal_cases)
  case 1
  show ?case by simp
next
  case (2 pat rep s lastIndex nextSourcePosition position)
  have bounds: "regexp_exec pat s i = Some p \<Longrightarrow> i \<le> p \<and> p \<le> length s" for i p
  proof (induction pat s i rule: regexp_exec.induct)
    case (1 pat s i)
    then show ?case
      by (cases "length s < i"; cases "matches_at pat s i")
        (auto simp add: regexp_exec.simps [of pat s i])
  qed
  from bounds [OF 2]
  have "lastIndex \<le> position" "position \<le> length s" by simp_all
  moreover have "pat \<noteq> [] \<Longrightarrow> 1 \<le> length pat" by (cases pat) simp_all
  ultimately have "Suc (length s) - (if pat = [] then Suc position else position + length pat)
      < Suc (length s) - lastIndex"
    by (cases "pat = []") (simp, fastforce)
  then show ?case by simp
qed

declare replace_loop.simps [simp del]

definition replace_global :: "jsstring \<Rightarrow> jsstring \<Rightarrow> jsstring \<Rightarrow> jsstring" where
  "replace_global pat rep s = replace_loop pat rep s 0 0"

subsection \<open>\<open>String.prototype.match\<close> with \<open>/\{[\s\S]*\}/\<close>\<close>

text \<open>
  The pattern is tried at the positions \<open>0, 1, \<dots>\<close> in turn. At a position holding
  \<open>{\<close>, the greedy \<open>[\s\S]*\<close> first takes every remaining code unit and then gives
  them back one at a time until the next code unit is \<open>}\<close>; the match is the text
  from the position to that \<open>}\<close> inclusive. Without a match the result is \<open>null\<close>.
\<close>

fun greedy_end :: "jsstring \<Rightarrow> nat \<Rightarrow> nat \<Rightarrow> nat option" where
  "greedy_end s i 0 = None"
| "greedy_end s i (Suc e) =
     (if e \<le> i then None
      else if s ! e = RBRACE then Some (Suc e)
      else greedy_end s i e)"

function match_from :: "jsstring \<Rightarrow> nat \<Rightarrow> jsstring option" where
  "match_from s i =
     (if length s \<le> i then None
      else if s ! i = LBRACE then
        (case greedy_end s i (length s) of
           Some e \<Rightarrow> Some (take (e - i) (drop i s))
         | None \<Rightarrow> match_from s (Suc i))
      else match_from s (Suc i))"
  by pat_completeness auto
termination
  by (relation "measure (\<lambda>(s, i). length s - i)") auto

declare match_from.simps [simp del]

definition match_braces :: "jsstring \<Rightarrow> jsstring option" where
  "match_braces s = match_from s 0"


section \<open>Values produced by \<open>JSON.parse\<close>\<close>

text \<open>
  A JSON number is read as a double. The number literals of JSON denote finite values or,
  on overflow, an infinity; there is no literal for NaN. A finite double is a rational
  number (the negative zero is identified with zero: both are falsy, and
  \<open>Math.max(0, -0)\<close> is the positive zero).
\<close>

datatype jsnum = Fin rat | PosInf | NegInf

datatype json =
    JNull
  | JBool bool
  | JNum jsnum
  | JStr jsstring
  | JArr "json list"
  | JObj "(jsstring \<times> json) list"

datatype js_error = Error jsstring | SyntaxError | TypeError

text \<open>
  Reading the property \<open>key\<close> of a value: \<open>null\<close> has no properties (TypeError), an
  object has the properties listed, and the keys read by this program are properties of
  no primitive value or array. \<open>None\<close> is \<open>undefined\<close>.
\<close>

fun get_prop :: "json \<Rightarrow> string \<Rightarrow> js_error + json option" where
  "get_prop JNull key = Inl TypeError"
| "get_prop (JObj kvs) key = Inr (map_of kvs (str key))"
| "get_prop v key = Inr None"

fun truthy :: "json \<Rightarrow> bool" where
  "truthy JNull = False"
| "truthy (JBool b) = b"
| "truthy (JNum n) = (n \<noteq> Fin 0)"
| "truthy (JStr s) = (s \<noteq> [])"
| "truthy (JArr vs) = True"
| "truthy (JObj kvs) = True"

text \<open>\<open>!!v\<close> for a property that may be \<open>undefined\<close>.\<close>

fun to_boolean :: "json option \<Rightarrow> bool" where
  "to_boolean None = False"
| "to_boolean (Some v) = truthy v"

text \<open>\<open>v || null\<close>.\<close>

fun or_null :: "json option \<Rightarrow> json" where
  "or_null None = JNull"
| "or_null (Some v) = (if truthy v then v else JNull)"

section \<open>Helpers\<close>

subsection \<open>\<open>extractJSON\<close>\<close>

text \<open>
  \<open>JSON.parse\<close> belongs to the language runtime and is a parameter here; \<open>None\<close>
  stands for its SyntaxError.
\<close>

definition cleaned :: "jsstring \<Rightarrow> jsstring" where
  "cleaned raw =
     js_trim (replace_global (str ''```'') [] (replace_global (str ''```json'') [] raw))"

definition extractJSON :: "(jsstring \<Rightarrow> json option) \<Rightarrow> jsstring \<Rightarrow> js_error + json" where
  "extractJSON JSON_parse raw =
     (case match_braces (cleaned raw) of
        None \<Rightarrow> Inl (Error (str ''No JSON object found in AI response''))
      | Some m \<Rightarrow> (case JSON_parse m of None \<Rightarrow> Inl SyntaxError | Some v \<Rightarrow> Inr v))"

subsection \<open>\<open>deriveStatus\<close>\<close>

definition deriveStatus :: "json \<Rightarrow> js_error + jsstring" where
  "deriveStatus parsed =
     (case get_prop parsed ''transactionId'' of
        Inl e \<Rightarrow> Inl e
      | Inr t \<Rightarrow>
          (case get_prop parsed ''toAccountNumber'' of
             Inl e \<Rightarrow> Inl e
           | Inr a \<Rightarrow>
               (let hasTransaction = to_boolean t; hasAccount = to_boolean a
                in if hasTransaction \<and> hasAccount then Inr (str ''complete'')
                   else if hasTransaction \<or> hasAccount then Inr (str ''partial'')
                   else Inr (str ''empty''))))"

subsection \<open>The confidence score\<close>

fun num_le :: "jsnum \<Rightarrow> jsnum \<Rightarrow> bool" where
  "num_le NegInf y = True"
| "num_le x PosInf = True"
| "num_le (Fin a) (Fin b) = (a \<le> b)"
| "num_le x y = False"

definition Math_max :: "jsnum \<Rightarrow> jsnum \<Rightarrow> jsnum" where
  "Math_max x y = (if num_le x y then y else x)"

definition Math_min :: "jsnum \<Rightarrow> jsnum \<Rightarrow> jsnum" where
  "Math_min x y = (if num_le x y then x else y)"

text \<open>
  \<open>typeof parsed.confidenceScore === "number" ? Math.min(100, Math.max(0,
  parsed.confidenceScore)) : null\<close>
\<close>

definition confidenceScore :: "json \<Rightarrow> js_error + json" where
  "confidenceScore parsed =
     (case get_prop parsed ''confidenceScore'' of
        Inl e \<Rightarrow> Inl e
      | Inr (Some (JNum x)) \<Rightarrow> Inr (JNum (Math_min (Fin 100) (Math_max (Fin 0) x)))
      | Inr _ \<Rightarrow> Inr JNull)"

subsection \<open>\<open>estimateImageSizeKB\<close>\<close>

text \<open>
  \<open>base64String.replace(/^data:image\/\w+;base64,/, "")\<close>: the pattern is anchored at
  the start. After \<open>data:image/\<close> the greedy \<open>\w+\<close> takes the longest run of word
  characters and gives them back one at a time, down to one, until \<open>;base64,\<close> follows.
\<close>

definition is_word_char :: "unit16 \<Rightarrow> bool" where
  "is_word_char c \<longleftrightarrow>
     (0x41 \<le> c \<and> c \<le> 0x5A) \<or> (0x61 \<le> c \<and> c \<le> 0x7A) \<or> (0x30 \<le> c \<and> c \<le> 0x39) \<or> c = 0x5F"

fun backtrack_word :: "jsstring \<Rightarrow> nat \<Rightarrow> nat \<Rightarrow> nat option" where
  "backtrack_word s start 0 = None"
| "backtrack_word s start (Suc k) =
     (if matches_at (str '';base64,'') s (start + Suc k) then Some (start + Suc k + 8)
      else backtrack_word s start k)"

definition data_prefix_end :: "jsstring \<Rightarrow> nat option" where
  "data_prefix_end s =
     (if matches_at (str ''data:image/'') s 0
      then backtrack_word s 11 (length (takeWhile is_word_char (drop 11 s)))
      else None)"

definition strip_data_prefix :: "jsstring \<Rightarrow> jsstring" where
  "strip_data_prefix s = (case data_prefix_end s of None \<Rightarrow> s | Some e \<Rightarrow> drop e s)"

text \<open>
  \<open>Math.round\<close> gives the nearest integer, the larger one at a tie. The length times 3
  is an exact integer and the divisions by 4 and by 1024 only change the exponent, so
  the argument of \<open>Math.round\<close> is the exact quotient.
\<close>

definition Math_round :: "rat \<Rightarrow> int" where
  "Math_round x = \<lfloor>x + 1 / 2\<rfloor>"

definition estimateImageSizeKB :: "jsstring \<Rightarrow> int" where
  "estimateImageSizeKB base64String =
     (let base = strip_data_prefix base64String
      in Math_round (of_nat (length base * 3) / 4 / 1024))"


subsection \<open>\<open>calcTokenCost\<close>\<close>

text \<open>
  JavaScript numbers are binary64 doubles. \<open>to_double x\<close> is the double nearest to the
  rational \<open>x\<close>, the one with the even significand at a tie: a significand of 53 bits
  at the exponent of \<open>x\<close>, and not below the smallest exponent \<open>-1022\<close>. (Values of
  magnitude \<open>2 ^ 1024\<close> and more, which become infinities, do not arise from token
  counts.) Every arithmetic operation returns the double nearest to the exact result.
\<close>

definition pow2 :: "int \<Rightarrow> rat" where
  "pow2 e = (if 0 \<le> e then 2 ^ nat e else 1 / 2 ^ nat (- e))"

text \<open>The exponent \<open>e\<close> with \<open>2 ^ e \<le> x < 2 ^ (e + 1)\<close>, for \<open>x > 0\<close>.\<close>

definition ilog2 :: "rat \<Rightarrow> int" where
  "ilog2 x = (if 1 \<le> x then bitlen \<lfloor>x\<rfloor> - 1 else - bitlen (\<lceil>1 / x\<rceil> - 1))"

definition round_half_even :: "rat \<Rightarrow> int" where
  "round_half_even y =
     (let f = \<lfloor>y\<rfloor>; d = y - of_int f
      in if d < 1 / 2 then f else if 1 / 2 < d then f + 1 else if even f then f else f + 1)"

definition to_double :: "rat \<Rightarrow> rat" where
  "to_double x =
     (if x = 0 then 0
      else let e = max (ilog2 \<bar>x\<bar>) (- 1022); ulp = pow2 (e - 52)
           in of_int (round_half_even (x / ulp)) * ulp)"

definition COST_PER_1K_INPUT_TOKENS :: rat where
  "COST_PER_1K_INPUT_TOKENS = to_double (15 / 100000)"

definition COST_PER_1K_OUTPUT_TOKENS :: rat where
  "COST_PER_1K_OUTPUT_TOKENS = to_double (6 / 10000)"

text \<open>
  \<open>x.toFixed(6)\<close> prints the integer \<open>n\<close> for which \<open>n / 10^6\<close> is nearest to the
  exact value of \<open>x\<close> (the larger \<open>n\<close> at a tie, on the magnitude of \<open>x\<close>) with a
  decimal point before its last six digits; \<open>parseFloat\<close> reads that decimal back as
  the nearest double.
\<close>

definition toFixed6 :: "rat \<Rightarrow> int" where
  "toFixed6 x = (if x < 0 then - \<lfloor>- x * 10 ^ 6 + 1 / 2\<rfloor> else \<lfloor>x * 10 ^ 6 + 1 / 2\<rfloor>)"

definition calcTokenCost :: "nat \<Rightarrow> nat \<Rightarrow> rat" where
  "calcTokenCost inputTokens outputTokens =
     (let inputCost = to_double (to_double (of_nat inputTokens / 1000) * COST_PER_1K_INPUT_TOKENS);
          outputCost = to_double (to_double (of_nat outputTokens / 1000) * COST_PER_1K_OUTPUT_TOKENS)
      in to_double (of_int (toFixed6 (to_double (inputCost + outputCost))) / 10 ^ 6))"

section \<open>The route \<open>POST /parse-slip\<close>\<close>

text \<open>
  What the handler reads from outside is its environment: the successive values of
  \<open>Date.now()\<close>, the five characters cut from \<open>Math.random().toString(36)\<close>, the reply
  (or failure) of the hosted model to a request, and \<open>JSON.parse\<close>. What it does to the
  outside is recorded in the world: how often the clock was read, the requests sent to
  the model, and the events written to the console. The handler returns the world and the
  HTTP response; \<open>res.json\<close> without \<open>res.status\<close> answers 200.
\<close>

datatype level = DEBUG | INFO | WARN | ERROR

text \<open>
  The two instruction texts sent to the model are fixed: the one of \<open>server.js\<close> asks
  for the two identifiers, the other one also for a confidence score.
\<close>

datatype prompt = ExtractIds | ExtractIdsWithConfidence

record ai_usage =
  input_tokens :: "nat option"
  output_tokens :: "nat option"

record ai_response =
  output_text :: jsstring
  usage :: "ai_usage option"

record env =
  env_clock :: "nat \<Rightarrow> int"
  env_random :: jsstring
  env_create :: "prompt \<Rightarrow> json \<Rightarrow> js_error + ai_response"
  env_parse :: "jsstring \<Rightarrow> json option"

record world =
  clock_reads :: nat
  ai_calls :: "(prompt \<times> json) list"
  console :: "(level \<times> string) list"

record http_response =
  status_code :: nat
  response_body :: json

definition Date_now :: "env \<Rightarrow> world \<Rightarrow> int \<times> world" where
  "Date_now E w = (env_clock E (clock_reads w), w\<lparr>clock_reads := Suc (clock_reads w)\<rparr>)"

definition log_event :: "level \<Rightarrow> string \<Rightarrow> world \<Rightarrow> world" where
  "log_event l event w = w\<lparr>console := console w @ [(l, event)]\<rparr>"

definition call_model :: "env \<Rightarrow> prompt \<Rightarrow> json \<Rightarrow> world \<Rightarrow> (js_error + ai_response) \<times> world" where
  "call_model E p img w = (env_create E p img, w\<lparr>ai_calls := ai_calls w @ [(p, img)]\<rparr>)"

text \<open>The decimal digits of an integer, as a template literal prints it.\<close>

fun show_nat :: "nat \<Rightarrow> jsstring" where
  "show_nat n = (if n < 10 then [of_nat (48 + n)] else show_nat (n div 10) @ [of_nat (48 + n mod 10)])"

definition show_int :: "int \<Rightarrow> jsstring" where
  "show_int i = (if i < 0 then str ''-'' @ show_nat (nat (- i)) else show_nat (nat i))"

definition num :: "int \<Rightarrow> json" where
  "num i = JNum (Fin (of_int i))"

definition MODEL :: jsstring where
  "MODEL = str ''gpt-4.1-mini''"

definition error_response :: "nat \<Rightarrow> jsstring \<Rightarrow> string \<Rightarrow> int \<Rightarrow> http_response" where
  "error_response code requestId message processTimeMs =
     \<lparr>status_code = code,
      response_body = JObj
        [(str ''requestId'', JStr requestId),
         (str ''status'', JStr (str ''error'')),
         (str ''error'', JStr (str message)),
         (str ''processTimeMs'', num processTimeMs)]\<rparr>"

text \<open>The \<open>data\<close> object of the response: \<open>parsed.transactionId || null\<close> and so on.\<close>

definition extracted_data :: "json \<Rightarrow> string \<Rightarrow> js_error + json" where
  "extracted_data parsed rawTextKey =
     (case get_prop parsed ''transactionId'' of
        Inl e \<Rightarrow> Inl e
      | Inr t \<Rightarrow>
          (case get_prop parsed ''toAccountNumber'' of
             Inl e \<Rightarrow> Inl e
           | Inr a \<Rightarrow>
               (case get_prop parsed ''rawText'' of
                  Inl e \<Rightarrow> Inl e
                | Inr r \<Rightarrow> Inr (JObj
                    [(str ''transactionId'', or_null t),
                     (str ''toAccountNumber'', or_null a),
                     (str rawTextKey, or_null r)]))))"

definition nullish_or :: "'a option \<Rightarrow> 'a \<Rightarrow> 'a" where
  "nullish_or v d = (case v of None \<Rightarrow> d | Some x \<Rightarrow> x)"

text \<open>
  The part of the handler after the model has replied and \<open>extractJSON\<close> has returned
  \<open>parsed\<close>: token and cost tracking, the derived fields, and the response.
\<close>

definition respond_success ::
  "env \<Rightarrow> jsstring \<Rightarrow> int \<Rightarrow> int \<Rightarrow> int \<Rightarrow> ai_response \<Rightarrow> json \<Rightarrow> world \<Rightarrow>
   world \<times> (js_error + http_response)" where
  "respond_success E requestId startTime imageSizeKB aiTimeMs response parsed w =
     (let u = nullish_or (usage response) \<lparr>input_tokens = None, output_tokens = None\<rparr>;
          inputTokens = nullish_or (input_tokens u) 0;
          outputTokens = nullish_or (output_tokens u) 0;
          totalTokens = inputTokens + outputTokens;
          estimatedCostUSD = calcTokenCost inputTokens outputTokens;
          (now, w1) = Date_now E w;
          processTimeMs = now - startTime
      in case deriveStatus parsed of
           Inl e \<Rightarrow> (w1, Inl e)
         | Inr status \<Rightarrow>
             (case confidenceScore parsed of
                Inl e \<Rightarrow> (w1, Inl e)
              | Inr score \<Rightarrow>
                  (let w2 = log_event INFO ''parse_slip.success'' w1
                   in case extracted_data parsed ''rawText'' of
                        Inl e \<Rightarrow> (w2, Inl e)
                      | Inr d \<Rightarrow>
                          (w2, Inr \<lparr>status_code = 200,
                            response_body = JObj
                              [(str ''requestId'', JStr requestId),
                               (str ''status'', JStr status),
                               (str ''data'', d),
                               (str ''aiScore'', score),
                               (str ''meta'', JObj
                                 [(str ''processTimeMs'', num processTimeMs),
                                  (str ''aiTimeMs'', num aiTimeMs),
                                  (str ''imageSizeKB'', num imageSizeKB),
                                  (str ''model'', JStr MODEL),
                                  (str ''tokens'', JObj
                                    [(str ''input'', num (int inputTokens)),
                                     (str ''output'', num (int outputTokens)),
                                     (str ''total'', num (int totalTokens)),
                                     (str ''estimatedCostUSD'', JNum (Fin estimatedCostUSD))])])]\<rparr>))))"

text \<open>The body of the \<open>try\<close> block: \<open>Inl\<close> is an exception for the \<open>catch\<close> clause.\<close>

definition try_block ::
  "env \<Rightarrow> json \<Rightarrow> jsstring \<Rightarrow> int \<Rightarrow> world \<Rightarrow> world \<times> (js_error + http_response)" where
  "try_block E req_body requestId startTime w =
     (case get_prop req_body ''base64Image'' of
        Inl e \<Rightarrow> (w, Inl e)
      | Inr base64Image \<Rightarrow>
          if \<not> to_boolean base64Image then
            (let w1 = log_event WARN ''parse_slip.missing_image'' w;
                 (now, w2) = Date_now E w1
             in (w2, Inr (error_response 400 requestId ''Missing image'' (now - startTime))))
          else
            (case base64Image of
               Some (JStr base64String) \<Rightarrow>
                 (let imageSizeKB = estimateImageSizeKB base64String;
                      w1 = log_event DEBUG ''parse_slip.image_received'' w;
                      (aiStart, w2) = Date_now E w1;
                      (reply, w3) = call_model E ExtractIdsWithConfidence (JStr base64String) w2
                  in case reply of
                       Inl e \<Rightarrow> (w3, Inl e)
                     | Inr response \<Rightarrow>
                         (let (now, w4) = Date_now E w3;
                              aiTimeMs = now - aiStart;
                              w5 = log_event DEBUG ''parse_slip.ai_response_received'' w4;
                              rawOutput = output_text response
                          in case extractJSON (env_parse E) rawOutput of
                               Inl parseErr \<Rightarrow>
                                 (let w6 = log_event ERROR ''parse_slip.json_parse_failed'' w5;
                                      (now', w7) = Date_now E w6
                                  in (w7, Inr (error_response 500 requestId
                                        ''Invalid AI response format'' (now' - startTime))))
                             | Inr parsed \<Rightarrow>
                                 respond_success E requestId startTime imageSizeKB aiTimeMs
                                   response parsed w5))
             | _ \<Rightarrow> (w, Inl TypeError)))"

definition parse_slip :: "env \<Rightarrow> json \<Rightarrow> world \<Rightarrow> world \<times> http_response" where
  "parse_slip E req_body w =
     (let (stamp, w1) = Date_now E w;
          requestId = str ''req_'' @ show_int stamp @ str ''_'' @ env_random E;
          (startTime, w2) = Date_now E w1;
          w3 = log_event INFO ''parse_slip.start'' w2
      in case try_block E req_body requestId startTime w3 of
           (w4, Inr res) \<Rightarrow> (w4, res)
         | (w4, Inl error) \<Rightarrow>
             (let (now, w5) = Date_now E w4;
                  processTimeMs = now - startTime;
                  w6 = log_event ERROR ''parse_slip.unhandled_error'' w5
              in (w6, error_response 500 requestId ''OCR processing failed'' processTimeMs)))"

subsection \<open>The handler of \<open>server.js\<close>\<close>

text \<open>
  \<open>server.js\<close> holds the same route without request identifiers, timing and logging:
  cleaning, matching and parsing are written out in the handler, and its responses carry
  the extracted fields at the top level, the raw text under \<open>text\<close>.
\<close>

definition plain_error :: "nat \<Rightarrow> string \<Rightarrow> http_response" where
  "plain_error code message =
     \<lparr>status_code = code, response_body = JObj [(str ''error'', JStr (str message))]\<rparr>"

definition try_block_server_js :: "env \<Rightarrow> json \<Rightarrow> world \<Rightarrow> world \<times> (js_error + http_response)" where
  "try_block_server_js E req_body w =
     (case get_prop req_body ''base64Image'' of
        Inl e \<Rightarrow> (w, Inl e)
      | Inr None \<Rightarrow> (w, Inr (plain_error 400 ''Missing image''))
      | Inr (Some base64Image) \<Rightarrow>
          if \<not> truthy base64Image then (w, Inr (plain_error 400 ''Missing image''))
          else
            (let (reply, w1) = call_model E ExtractIds base64Image w
             in case reply of
                  Inl e \<Rightarrow> (w1, Inl e)
                | Inr response \<Rightarrow>
                    (case match_braces (cleaned (output_text response)) of
                       None \<Rightarrow> (w1, Inr (plain_error 500 ''Invalid AI response''))
                     | Some jsonMatch \<Rightarrow>
                         (case env_parse E jsonMatch of
                            None \<Rightarrow> (w1, Inl SyntaxError)
                          | Some parsed \<Rightarrow>
                              (case extracted_data parsed ''text'' of
                                 Inl e \<Rightarrow> (w1, Inl e)
                               | Inr d \<Rightarrow> (w1, Inr \<lparr>status_code = 200, response_body = d\<rparr>))))))"

definition parse_slip_server_js :: "env \<Rightarrow> json \<Rightarrow> world \<Rightarrow> world \<times> http_response" where
  "parse_slip_server_js E req_body w =
     (case try_block_server_js E req_body w of
        (w1, Inr res) \<Rightarrow> (w1, res)
      | (w1, Inl error) \<Rightarrow>
          (log_event ERROR ''OCR Worker error:'' w1, plain_error 500 ''OCR processing failed''))"


section \<open>The reference algorithm of the specification\<close>

text \<open>
  The extraction as the specification words it: remove every occurrence of the fence
  tagged \<open>json\<close> and then of the bare fence, trim, and take the text from the first
  \<open>{\<close> to the last \<open>}\<close>. Removing every occurrence of a text scans from the left and
  drops the text wherever it starts.
\<close>

function remove_all :: "jsstring \<Rightarrow> jsstring \<Rightarrow> jsstring" where
  "remove_all pat [] = []"
| "remove_all pat (c # cs) =
     (if pat \<noteq> [] \<and> take (length pat) (c # cs) = pat
      then remove_all pat (drop (length pat) (c # cs))
      else c # remove_all pat cs)"
  by pat_completeness auto
termination
  by (relation "measure (\<lambda>(pat, s). length s)") auto

declare remove_all.simps(2) [simp del]

definition first_index :: "unit16 \<Rightarrow> jsstring \<Rightarrow> nat" where
  "first_index c s = length (takeWhile (\<lambda>x. x \<noteq> c) s)"

definition last_index :: "unit16 \<Rightarrow> jsstring \<Rightarrow> nat" where
  "last_index c s = length s - 1 - first_index c (rev s)"

definition outer_braces :: "jsstring \<Rightarrow> jsstring option" where
  "outer_braces s =
     (if LBRACE \<in> set s \<and> RBRACE \<in> set s \<and> first_index LBRACE s < last_index RBRACE s
      then Some (take (last_index RBRACE s + 1 - first_index LBRACE s)
                   (drop (first_index LBRACE s) s))
      else None)"

definition reference_cleaned :: "jsstring \<Rightarrow> jsstring" where
  "reference_cleaned raw = js_trim (remove_all (str ''```'') (remove_all (str ''```json'') raw))"

definition reference_extract :: "(jsstring \<Rightarrow> json option) \<Rightarrow> jsstring \<Rightarrow> js_error + json" where
  "reference_extract JSON_parse raw =
     (case outer_braces (reference_cleaned raw) of
        None \<Rightarrow> Inl (Error (str ''No JSON object found in AI response''))
      | Some m \<Rightarrow> (case JSON_parse m of None \<Rightarrow> Inl SyntaxError | Some v \<Rightarrow> Inr v))"


text \<open>
  The cost as the specification words it, in exact arithmetic, and rounding to six
  decimals (to the nearest, a half upwards).
\<close>

definition reference_cost :: "nat \<Rightarrow> nat \<Rightarrow> rat" where
  "reference_cost inputTokens outputTokens =
     of_nat inputTokens / 1000 * (15 / 100000) + of_nat outputTokens / 1000 * (6 / 10000)"

definition round6 :: "rat \<Rightarrow> rat" where
  "round6 x = of_int \<lfloor>x * 10 ^ 6 + 1 / 2\<rfloor> / 10 ^ 6"
section \<open>Example inputs\<close>

text \<open>
  A reply with prose around the object, and what \<open>JSON.parse\<close> returns for its object text.
\<close>

definition reply_T1 :: jsstring where
  \<open>reply_T1 = str ''Sure! {"transactionId":"T1","toAccountNumber":"A1"} Thanks''\<close>

definition parse_T1 :: "jsstring \<Rightarrow> json option" where
  \<open>parse_T1 m =
     (if m = str ''{"transactionId":"T1","toAccountNumber":"A1"}''
      then Some (JObj [(str ''transactionId'', JStr (str ''T1'')),
                       (str ''toAccountNumber'', JStr (str ''A1''))])
      else None)\<close>


definition reply_refusal :: jsstring where
  "reply_refusal = str ''I cannot read this slip.''"

definition env_T1 :: env where
  "env_T1 =
     \<lparr>env_clock = (\<lambda>k. 1700000000000 + 7 * int k),
      env_random = str ''k3x9q'',
      env_create = (\<lambda>p img. Inr \<lparr>output_text = reply_T1,
         usage = Some \<lparr>input_tokens = Some 2000, output_tokens = Some 500\<rparr>\<rparr>),
      env_parse = parse_T1\<rparr>"

definition world0 :: world where
  "world0 = \<lparr>clock_reads = 0, ai_calls = [], console = []\<rparr>"

definition body_png :: json where
  "body_png = JObj [(str ''base64Image'', JStr (str ''data:image/png;base64,AAAA''))]"

definition env_refusal :: env where
  "env_refusal = env_T1\<lparr>env_create := (\<lambda>p img. Inr \<lparr>output_text = reply_refusal, usage = None\<rparr>)\<rparr>"

definition env_offline :: env where
  "env_offline = env_T1\<lparr>env_create := (\<lambda>p img. Inl (Error (str ''Connection error.'')))\<rparr>"

definition svg_data_uri :: jsstring where
  "svg_data_uri = str ''data:image/svg+xml;base64,'' @ replicate 670 0x41"
section \<open>Cleaning and matching\<close>

lemma regexp_exec_bounds:
  "regexp_exec pat s i = Some p \<Longrightarrow> i \<le> p \<and> p \<le> length s"
proof (induction pat s i rule: regexp_exec.induct)
  case (1 pat s i)
  then show ?case
    by (cases "length s < i"; cases "matches_at pat s i")
      (auto simp add: regexp_exec.simps [of pat s i])
qed

lemma remove_all_unfold:
  assumes "i < length s"
  shows "remove_all pat (drop i s) =
     (if pat \<noteq> [] \<and> matches_at pat s i then remove_all pat (drop (i + length pat) s)
      else s ! i # remove_all pat (drop (Suc i) s))"
proof -
  from assms have d: "drop i s = s ! i # drop (Suc i) s"
    by (simp add: Cons_nth_drop_Suc)
  have "remove_all pat (s ! i # drop (Suc i) s) =
      (if pat \<noteq> [] \<and> take (length pat) (s ! i # drop (Suc i) s) = pat
       then remove_all pat (drop (length pat) (s ! i # drop (Suc i) s))
       else s ! i # remove_all pat (drop (Suc i) s))"
    by (rule remove_all.simps(2))
  then have "remove_all pat (drop i s) =
      (if pat \<noteq> [] \<and> take (length pat) (drop i s) = pat
       then remove_all pat (drop (length pat) (drop i s))
       else s ! i # remove_all pat (drop (Suc i) s))"
    by (simp only: d [symmetric])
  then show ?thesis
    by (simp add: matches_at_def add.commute)
qed

lemma regexp_exec_None:
  "regexp_exec pat s i = None \<Longrightarrow> pat \<noteq> [] \<Longrightarrow> remove_all pat (drop i s) = drop i s"
proof (induction pat s i rule: regexp_exec.induct)
  case (1 pat s i)
  show ?case
  proof (cases "i < length s")
    case True
    with "1.prems" have nm: "\<not> matches_at pat s i" and nx: "regexp_exec pat s (Suc i) = None"
      by (auto simp: regexp_exec.simps [of pat s i] split: if_splits)
    from True nm have "regexp_exec pat s (Suc i) = None \<Longrightarrow> remove_all pat (drop (Suc i) s) = drop (Suc i) s"
      using "1.IH" "1.prems"(2) by simp
    with nx have "remove_all pat (drop (Suc i) s) = drop (Suc i) s" by simp
    with True nm show ?thesis
      by (simp add: remove_all_unfold Cons_nth_drop_Suc)
  next
    case False
    then show ?thesis by simp
  qed
qed

lemma regexp_exec_Some:
  "regexp_exec pat s i = Some p \<Longrightarrow> pat \<noteq> [] \<Longrightarrow>
     remove_all pat (drop i s) = take (p - i) (drop i s) @ remove_all pat (drop (p + length pat) s)"
proof (induction pat s i rule: regexp_exec.induct)
  case (1 pat s i)
  show ?case
  proof (cases "i < length s")
    case True
    show ?thesis
    proof (cases "matches_at pat s i")
      case m: True
      with True "1.prems" have "p = i" by (simp add: regexp_exec.simps [of pat s i])
      with True m "1.prems"(2) show ?thesis by (simp add: remove_all_unfold)
    next
      case nm: False
      with True "1.prems" have nx: "regexp_exec pat s (Suc i) = Some p"
        by (simp add: regexp_exec.simps [of pat s i])
      from regexp_exec_bounds [OF nx] have ip: "Suc i \<le> p" by simp
      from True nm nx "1.IH" "1.prems"(2)
      have "remove_all pat (drop (Suc i) s) =
          take (p - Suc i) (drop (Suc i) s) @ remove_all pat (drop (p + length pat) s)"
        by simp
      moreover from ip have "p - i = Suc (p - Suc i)" by simp
      with True have "take (p - i) (drop i s) = s ! i # take (p - Suc i) (drop (Suc i) s)"
        by (simp add: Cons_nth_drop_Suc [symmetric])
      ultimately show ?thesis using True nm by (simp add: remove_all_unfold)
    qed
  next
    case False
    with regexp_exec_bounds [OF "1.prems"(1)] have il: "i = length s" by simp
    have "regexp_exec pat s (Suc (length s)) = None"
      by (simp add: regexp_exec.simps [of pat s "Suc (length s)"])
    moreover from "1.prems"(2) have "\<not> matches_at pat s (length s)"
      by (auto simp add: matches_at_def)
    ultimately have "regexp_exec pat s i = None"
      using il by (simp add: regexp_exec.simps [of pat s "length s"])
    with "1.prems"(1) show ?thesis by simp
  qed
qed

lemma replace_loop_remove_all:
  "pat \<noteq> [] \<Longrightarrow> rep = [] \<Longrightarrow> n = i \<Longrightarrow> replace_loop pat rep s i n = remove_all pat (drop i s)"
proof (induction pat rep s i n rule: replace_loop.induct)
  case (1 pat rep s i n)
  show ?case
  proof (cases "regexp_exec pat s i")
    case None
    with "1.prems" show ?thesis
      by (simp add: replace_loop.simps [of pat "[]" s i i] regexp_exec_None)
  next
    case (Some p)
    with "1.IH" [OF Some] "1.prems"
    have "replace_loop pat rep s (p + length pat) (p + length pat) = remove_all pat (drop (p + length pat) s)"
      by simp
    with Some "1.prems" show ?thesis
      by (simp add: replace_loop.simps [of pat "[]" s i i] regexp_exec_Some)
  qed
qed

lemma replace_global_remove_all:
  "pat \<noteq> [] \<Longrightarrow> replace_global pat [] s = remove_all pat s"
  by (simp add: replace_global_def replace_loop_remove_all)


lemma first_index_hit:
  "c \<in> set s \<Longrightarrow> first_index c s < length s \<and> s ! first_index c s = c"
  by (induction s) (auto simp: first_index_def)

lemma first_index_before: "k < first_index c s \<Longrightarrow> s ! k \<noteq> c"
  by (induction s arbitrary: k) (auto simp: first_index_def nth_Cons' split: if_splits)

lemma last_index_hit:
  assumes "c \<in> set s"
  shows "last_index c s < length s \<and> s ! last_index c s = c"
proof -
  from assms have "c \<in> set (rev s)" by simp
  from first_index_hit [OF this]
  have a: "first_index c (rev s) < length s" and b: "rev s ! first_index c (rev s) = c"
    by simp_all
  from a b show ?thesis
    by (simp add: last_index_def rev_nth)
qed

lemma last_index_after:
  assumes "last_index c s < k" "k < length s"
  shows "s ! k \<noteq> c"
proof -
  from assms have "length s - 1 - k < first_index c (rev s)"
    unfolding last_index_def by arith
  from first_index_before [OF this] assms(2) show ?thesis
    by (simp add: rev_nth)
qed

lemma greedy_end_None:
  "greedy_end s i e = None \<longleftrightarrow> (\<forall>k. i < k \<and> k < e \<longrightarrow> s ! k \<noteq> RBRACE)"
proof (induction e)
  case 0
  show ?case by simp
next
  case (Suc e)
  show ?case
  proof (cases "e \<le> i")
    case True
    then show ?thesis by auto
  next
    case False
    show ?thesis
    proof (cases "s ! e = RBRACE")
      case True
      with False have "i < e \<and> e < Suc e \<and> s ! e = RBRACE" by simp
      then have "\<not> (\<forall>k. i < k \<and> k < Suc e \<longrightarrow> s ! k \<noteq> RBRACE)" by blast
      with True False show ?thesis by simp
    next
      case ne: False
      with False Suc.IH show ?thesis by (auto simp: less_Suc_eq)
    qed
  qed
qed

lemma greedy_end_Some:
  "greedy_end s i e = Some r \<Longrightarrow>
     \<exists>k. r = Suc k \<and> i < k \<and> k < e \<and> s ! k = RBRACE \<and> (\<forall>j. k < j \<and> j < e \<longrightarrow> s ! j \<noteq> RBRACE)"
proof (induction e)
  case 0
  then show ?case by simp
next
  case (Suc e)
  show ?case
  proof (cases "e \<le> i \<or> s ! e = RBRACE")
    case True
    with Suc.prems show ?thesis by (auto split: if_splits)
  next
    case False
    with Suc.prems have "greedy_end s i e = Some r" by simp
    from Suc.IH [OF this] obtain k where
      "r = Suc k" "i < k" "k < e" "s ! k = RBRACE" "\<forall>j. k < j \<and> j < e \<longrightarrow> s ! j \<noteq> RBRACE"
      by blast
    with False show ?thesis by (auto simp: less_Suc_eq)
  qed
qed

lemma match_from_none:
  "(\<forall>k. i < k \<and> k < length s \<longrightarrow> s ! k \<noteq> RBRACE) \<Longrightarrow> match_from s i = None"
proof (induction s i rule: match_from.induct)
  case (1 s i)
  show ?case
  proof (cases "length s \<le> i")
    case True
    then show ?thesis by (simp add: match_from.simps [of s i])
  next
    case False
    from "1.prems" have g: "greedy_end s i (length s) = None"
      by (simp add: greedy_end_None)
    from "1.prems" have "\<forall>k. Suc i < k \<and> k < length s \<longrightarrow> s ! k \<noteq> RBRACE" by auto
    with False g "1.IH" have "match_from s (Suc i) = None" by (cases "s ! i = LBRACE") auto
    with False g show ?thesis by (simp add: match_from.simps [of s i])
  qed
qed

lemma match_from_skip:
  "(\<forall>k. i \<le> k \<and> k < f \<longrightarrow> s ! k \<noteq> LBRACE) \<Longrightarrow> i \<le> f \<Longrightarrow> f \<le> length s \<Longrightarrow>
     match_from s i = match_from s f"
proof (induction "f - i" arbitrary: i)
  case 0
  then show ?case by simp
next
  case (Suc d)
  then have "i < f" "s ! i \<noteq> LBRACE" "d = f - Suc i" by auto
  with Suc.prems Suc.hyps(1) [of "Suc i"] have "match_from s (Suc i) = match_from s f"
    by auto
  with \<open>i < f\<close> \<open>s ! i \<noteq> LBRACE\<close> Suc.prems show ?case
    by (simp add: match_from.simps [of s i])
qed

lemma match_braces_outer: "match_braces s = outer_braces s"
proof (cases "LBRACE \<in> set s")
  case False
  then have "\<forall>k. 0 \<le> k \<and> k < length s \<longrightarrow> s ! k \<noteq> LBRACE"
    by (metis nth_mem)
  from match_from_skip [OF this] have "match_from s 0 = match_from s (length s)" by simp
  with False show ?thesis
    by (simp add: match_braces_def outer_braces_def match_from.simps [of s "length s"])
next
  case True
  define f where "f = first_index LBRACE s"
  from first_index_hit [OF True] have f: "f < length s" "s ! f = LBRACE"
    by (simp_all add: f_def)
  have "\<forall>k. 0 \<le> k \<and> k < f \<longrightarrow> s ! k \<noteq> LBRACE"
    by (simp add: f_def first_index_before)
  from match_from_skip [OF this] f have m0: "match_braces s = match_from s f"
    by (simp add: match_braces_def)
  show ?thesis
  proof (cases "RBRACE \<in> set s \<and> f < last_index RBRACE s")
    case False
    have "\<forall>k. f < k \<and> k < length s \<longrightarrow> s ! k \<noteq> RBRACE"
    proof (intro allI impI)
      fix k assume k: "f < k \<and> k < length s"
      show "s ! k \<noteq> RBRACE"
      proof (cases "RBRACE \<in> set s")
        case True
        with False k have "last_index RBRACE s < k" by simp
        with k show ?thesis by (simp add: last_index_after)
      next
        case False
        with k show ?thesis by (metis nth_mem)
      qed
    qed
    from match_from_none [OF this] False m0 show ?thesis
      by (auto simp add: outer_braces_def f_def)
  next
    case r: True
    define l where "l = last_index RBRACE s"
    from r last_index_hit [of RBRACE s] have l: "l < length s" "s ! l = RBRACE" "f < l"
      by (simp_all add: l_def)
    have "greedy_end s f (length s) \<noteq> None"
      using l by (auto simp add: greedy_end_None)
    then obtain e where e: "greedy_end s f (length s) = Some e" by auto
    from greedy_end_Some [OF e] obtain k where
      k: "e = Suc k" "f < k" "k < length s" "s ! k = RBRACE"
         "\<forall>j. k < j \<and> j < length s \<longrightarrow> s ! j \<noteq> RBRACE"
      by blast
    have "k = l"
    proof (rule ccontr)
      assume "k \<noteq> l"
      then consider "k < l" | "l < k" by arith
      then show False
      proof cases
        case 1
        with k(5) l show ?thesis by auto
      next
        case 2
        with last_index_after [of RBRACE s k] k show ?thesis by (simp add: l_def)
      qed
    qed
    with e k f have "match_from s f = Some (take (Suc l - f) (drop f s))"
      by (simp add: match_from.simps [of s f])
    with m0 r True show ?thesis
      by (simp add: outer_braces_def f_def l_def)
  qed
qed


lemma cleaned_reference: "cleaned raw = reference_cleaned raw"
proof -
  have "str ''```json'' \<noteq> []" "str ''```'' \<noteq> []" by (simp_all add: str_def)
  then show ?thesis
    by (simp add: cleaned_def reference_cleaned_def replace_global_remove_all)
qed

lemma braces_differ: "LBRACE \<noteq> RBRACE"
  by (simp add: LBRACE_def RBRACE_def)

lemma first_index_append:
  "c \<notin> set pre \<Longrightarrow> first_index c (pre @ c # rest) = length pre"
  by (induction pre) (auto simp: first_index_def)

lemma outer_braces_prose:
  assumes "LBRACE \<notin> set pre" "RBRACE \<notin> set post"
  shows "outer_braces (pre @ LBRACE # mid @ RBRACE # post) = Some (LBRACE # mid @ [RBRACE])"
proof -
  let ?s = "pre @ LBRACE # mid @ RBRACE # post"
  from assms(1) have f: "first_index LBRACE ?s = length pre"
    by (rule first_index_append)
  have r: "rev ?s = rev post @ RBRACE # (rev mid @ LBRACE # rev pre)" by simp
  from assms(2) have "RBRACE \<notin> set (rev post)" by simp
  then have "first_index RBRACE (rev post @ RBRACE # (rev mid @ LBRACE # rev pre)) = length (rev post)"
    by (rule first_index_append)
  with r have "first_index RBRACE (rev ?s) = length (rev post)"
    by (simp only:)
  then have l: "last_index RBRACE ?s = length pre + Suc (length mid)"
    by (simp add: last_index_def)
  from f l show ?thesis
    by (simp add: outer_braces_def)
qed

lemma cleaned_reply_T1:
  \<open>cleaned reply_T1 =
     str ''Sure! '' @ LBRACE # str ''"transactionId":"T1","toAccountNumber":"A1"'' @ RBRACE # str '' Thanks''\<close>
  by code_simp

text \<open>
  Claim C1. For every raw reply, \<open>extractJSON\<close> is the reference algorithm: remove every
  occurrence of the fence tagged \<open>json\<close> and of the bare fence, trim, take the text from
  the first \<open>{\<close> to the last \<open>}\<close> of the cleaned text, and parse it; the handler of
  \<open>server.js\<close> cleans and matches by the same two steps. In particular, when the cleaned
  text has no \<open>{\<close> before and no \<open>}\<close> after an object text, the result is that of
  parsing the object text, whatever prose surrounds it.
\<close>

theorem extractJSON_reference:
  "match_braces (cleaned raw) = outer_braces (reference_cleaned raw) \<and>
   extractJSON JSON_parse raw = reference_extract JSON_parse raw \<and>
   (cleaned raw = pre @ LBRACE # mid @ RBRACE # post \<and> LBRACE \<notin> set pre \<and> RBRACE \<notin> set post \<longrightarrow>
      extractJSON JSON_parse raw =
        (case JSON_parse (LBRACE # mid @ [RBRACE]) of None \<Rightarrow> Inl SyntaxError | Some v \<Rightarrow> Inr v))"
proof (intro conjI impI)
  show "match_braces (cleaned raw) = outer_braces (reference_cleaned raw)"
    by (simp add: match_braces_outer cleaned_reference)
  show "extractJSON JSON_parse raw = reference_extract JSON_parse raw"
    by (simp add: extractJSON_def reference_extract_def match_braces_outer cleaned_reference)
next
  assume a: "cleaned raw = pre @ LBRACE # mid @ RBRACE # post \<and> LBRACE \<notin> set pre \<and> RBRACE \<notin> set post"
  then have "match_braces (cleaned raw) = Some (LBRACE # mid @ [RBRACE])"
    by (simp add: match_braces_outer outer_braces_prose)
  then show "extractJSON JSON_parse raw =
      (case JSON_parse (LBRACE # mid @ [RBRACE]) of None \<Rightarrow> Inl SyntaxError | Some v \<Rightarrow> Inr v)"
    by (simp add: extractJSON_def)
qed

theorem extractJSON_reference_witness:
  \<open>cleaned reply_T1 =
     str ''Sure! '' @ LBRACE # str ''"transactionId":"T1","toAccountNumber":"A1"'' @ RBRACE # str '' Thanks'' \<and>
   LBRACE \<notin> set (str ''Sure! '') \<and> RBRACE \<notin> set (str '' Thanks'') \<and>
   extractJSON parse_T1 reply_T1 =
     Inr (JObj [(str ''transactionId'', JStr (str ''T1'')),
                (str ''toAccountNumber'', JStr (str ''A1''))]) \<and>
   reference_extract parse_T1 reply_T1 = extractJSON parse_T1 reply_T1\<close>
proof -
  note c = cleaned_reply_T1
  have l: "LBRACE \<notin> set (str ''Sure! '')" and r: "RBRACE \<notin> set (str '' Thanks'')"
    by (simp_all add: str_def u16_def LBRACE_def RBRACE_def)
  have p: \<open>parse_T1 (LBRACE # str ''"transactionId":"T1","toAccountNumber":"A1"'' @ [RBRACE]) =
      Some (JObj [(str ''transactionId'', JStr (str ''T1'')),
                  (str ''toAccountNumber'', JStr (str ''A1''))])\<close>
    by (simp add: parse_T1_def str_def u16_def LBRACE_def RBRACE_def)
  note t = extractJSON_reference [of reply_T1 parse_T1 "str ''Sure! ''"
      \<open>str ''"transactionId":"T1","toAccountNumber":"A1"''\<close> "str '' Thanks''"]
  from t c l r have \<open>extractJSON parse_T1 reply_T1 =
      (case parse_T1 (LBRACE # str ''"transactionId":"T1","toAccountNumber":"A1"'' @ [RBRACE]) of
         None \<Rightarrow> Inl SyntaxError | Some v \<Rightarrow> Inr v)\<close>
    by blast
  with p have e: \<open>extractJSON parse_T1 reply_T1 =
      Inr (JObj [(str ''transactionId'', JStr (str ''T1'')),
                 (str ''toAccountNumber'', JStr (str ''A1''))])\<close>
    by simp
  from t have "reference_extract parse_T1 reply_T1 = extractJSON parse_T1 reply_T1"
    by simp
  with c l r e show ?thesis by blast
qed

lemma set_remove_all: "set (remove_all pat s) \<subseteq> set s"
proof (induction pat s rule: remove_all.induct)
  case (1 pat)
  show ?case by simp
next
  case (2 pat c cs)
  show ?case
  proof (cases "pat \<noteq> [] \<and> take (length pat) (c # cs) = pat")
    case True
    with 2 have "set (remove_all pat (drop (length pat) (c # cs))) \<subseteq> set (drop (length pat) (c # cs))"
      by simp
    also have "\<dots> \<subseteq> set (c # cs)" by (rule set_drop_subset)
    finally show ?thesis using True by (simp add: remove_all.simps(2) [of pat c cs])
  next
    case False
    with 2 have "set (remove_all pat cs) \<subseteq> set cs" by simp
    with False show ?thesis by (auto simp add: remove_all.simps(2) [of pat c cs])
  qed
qed

lemma set_js_trim: "set (js_trim s) \<subseteq> set s"
proof -
  have "set (js_trim s) \<subseteq> set (dropWhile is_js_space s)"
    unfolding js_trim_def using set_dropWhileD by fastforce
  also have "\<dots> \<subseteq> set s" using set_dropWhileD by fastforce
  finally show ?thesis .
qed

lemma set_cleaned: "set (cleaned raw) \<subseteq> set raw"
proof -
  have "set (cleaned raw) \<subseteq> set (remove_all (str ''```'') (remove_all (str ''```json'') raw))"
    by (simp add: cleaned_reference reference_cleaned_def set_js_trim)
  also have "\<dots> \<subseteq> set (remove_all (str ''```json'') raw)" by (rule set_remove_all)
  also have "\<dots> \<subseteq> set raw" by (rule set_remove_all)
  finally show ?thesis .
qed

lemma outer_braces_no_pair:
  assumes "\<not> (\<exists>i j. i < j \<and> j < length s \<and> s ! i = LBRACE \<and> s ! j = RBRACE)"
  shows "outer_braces s = None"
proof (rule ccontr)
  assume "outer_braces s \<noteq> None"
  then have a: "LBRACE \<in> set s" "RBRACE \<in> set s" "first_index LBRACE s < last_index RBRACE s"
    by (auto simp add: outer_braces_def split: if_splits)
  from first_index_hit [OF a(1)] last_index_hit [OF a(2)] a(3) assms show False
    by blast
qed

text \<open>
  Claim C2. When the cleaned text holds no \<open>{\<close> with a \<open>}\<close> somewhere after it, and so
  whenever the reply holds no \<open>{\<close> at all, \<open>extractJSON\<close> returns no object: it throws
  the error with the message "No JSON object found in AI response", which is not the
  SyntaxError of a failed \<open>JSON.parse\<close>.
\<close>

theorem extractJSON_no_object:
  "(\<not> (\<exists>i j. i < j \<and> j < length (cleaned raw) \<and> cleaned raw ! i = LBRACE \<and> cleaned raw ! j = RBRACE) \<longrightarrow>
      extractJSON JSON_parse raw = Inl (Error (str ''No JSON object found in AI response''))) \<and>
   (LBRACE \<notin> set raw \<longrightarrow>
      extractJSON JSON_parse raw = Inl (Error (str ''No JSON object found in AI response''))) \<and>
   Error (str ''No JSON object found in AI response'') \<noteq> SyntaxError"
proof (intro conjI impI)
  assume "\<not> (\<exists>i j. i < j \<and> j < length (cleaned raw) \<and> cleaned raw ! i = LBRACE \<and> cleaned raw ! j = RBRACE)"
  then have "outer_braces (cleaned raw) = None"
    by (rule outer_braces_no_pair)
  then have "match_braces (cleaned raw) = None"
    by (simp only: match_braces_outer)
  then show "extractJSON JSON_parse raw = Inl (Error (str ''No JSON object found in AI response''))"
    by (simp add: extractJSON_def)
next
  assume "LBRACE \<notin> set raw"
  with set_cleaned [of raw] have "LBRACE \<notin> set (cleaned raw)" by blast
  then have "match_braces (cleaned raw) = None"
    by (simp add: match_braces_outer outer_braces_def)
  then show "extractJSON JSON_parse raw = Inl (Error (str ''No JSON object found in AI response''))"
    by (simp add: extractJSON_def)
next
  show "Error (str ''No JSON object found in AI response'') \<noteq> SyntaxError" by simp
qed

theorem extractJSON_no_object_witness:
  "LBRACE \<notin> set reply_refusal \<and>
   extractJSON parse_T1 reply_refusal = Inl (Error (str ''No JSON object found in AI response''))"
proof -
  have "LBRACE \<notin> set reply_refusal"
    by (simp add: reply_refusal_def str_def u16_def LBRACE_def)
  with extractJSON_no_object [of reply_refusal parse_T1] show ?thesis by blast
qed

text \<open>
  Claim C3. For a parsed object, \<open>deriveStatus\<close> is "complete" when \<open>transactionId\<close> and
  \<open>toAccountNumber\<close> are both truthy, "partial" when exactly one of them is, and "empty"
  when neither is.
\<close>

theorem deriveStatus_cases:
  "(to_boolean (map_of kvs (str ''transactionId'')) \<and> to_boolean (map_of kvs (str ''toAccountNumber'')) \<longrightarrow>
      deriveStatus (JObj kvs) = Inr (str ''complete'')) \<and>
   (to_boolean (map_of kvs (str ''transactionId'')) \<noteq> to_boolean (map_of kvs (str ''toAccountNumber'')) \<longrightarrow>
      deriveStatus (JObj kvs) = Inr (str ''partial'')) \<and>
   (\<not> to_boolean (map_of kvs (str ''transactionId'')) \<and> \<not> to_boolean (map_of kvs (str ''toAccountNumber'')) \<longrightarrow>
      deriveStatus (JObj kvs) = Inr (str ''empty''))"
  by (auto simp add: deriveStatus_def)

theorem deriveStatus_cases_witness:
  "deriveStatus (JObj [(str ''transactionId'', JStr (str ''T1'')), (str ''toAccountNumber'', JNull)])
     = Inr (str ''partial'') \<and>
   deriveStatus (JObj [(str ''transactionId'', JNull), (str ''toAccountNumber'', JNull)])
     = Inr (str ''empty'') \<and>
   deriveStatus (JObj [(str ''transactionId'', JStr (str ''T1'')), (str ''toAccountNumber'', JStr (str ''A1''))])
     = Inr (str ''complete'') \<and>
   deriveStatus (JObj [(str ''toAccountNumber'', JStr (str ''A1''))]) = Inr (str ''partial'')"
proof -
  have k: "str ''transactionId'' \<noteq> str ''toAccountNumber''"
    by (simp add: str_def u16_def)
  have s: "str ''T1'' \<noteq> []" "str ''A1'' \<noteq> []" by (simp_all add: str_def)
  show ?thesis
    using deriveStatus_cases [of "[(str ''transactionId'', JStr (str ''T1'')), (str ''toAccountNumber'', JNull)]"]
      deriveStatus_cases [of "[(str ''transactionId'', JNull), (str ''toAccountNumber'', JNull)]"]
      deriveStatus_cases [of "[(str ''transactionId'', JStr (str ''T1'')), (str ''toAccountNumber'', JStr (str ''A1''))]"]
      deriveStatus_cases [of "[(str ''toAccountNumber'', JStr (str ''A1''))]"]
      k s
    by simp
qed

text \<open>
  Claim C4. For a parsed object, the normalised confidence score is the
  \<open>confidenceScore\<close> clamped to the closed interval from 0 to 100 when that field is a
  number (an infinity included), with no rounding, and \<open>null\<close> when the field is absent
  or not a number.
\<close>

theorem confidenceScore_clamped:
  "(map_of kvs (str ''confidenceScore'') = Some (JNum (Fin r)) \<longrightarrow>
      confidenceScore (JObj kvs) = Inr (JNum (Fin (max 0 (min 100 r)))) \<and>
      (0 \<le> r \<and> r \<le> 100 \<longrightarrow> confidenceScore (JObj kvs) = Inr (JNum (Fin r)))) \<and>
   (map_of kvs (str ''confidenceScore'') = Some (JNum PosInf) \<longrightarrow>
      confidenceScore (JObj kvs) = Inr (JNum (Fin 100))) \<and>
   (map_of kvs (str ''confidenceScore'') = Some (JNum NegInf) \<longrightarrow>
      confidenceScore (JObj kvs) = Inr (JNum (Fin 0))) \<and>
   ((\<forall>x. map_of kvs (str ''confidenceScore'') \<noteq> Some (JNum x)) \<longrightarrow>
      confidenceScore (JObj kvs) = Inr JNull)"
proof (intro conjI impI)
  assume "map_of kvs (str ''confidenceScore'') = Some (JNum (Fin r))"
  then show "confidenceScore (JObj kvs) = Inr (JNum (Fin (max 0 (min 100 r))))"
    by (simp add: confidenceScore_def Math_min_def Math_max_def max_def min_def)
next
  assume "map_of kvs (str ''confidenceScore'') = Some (JNum (Fin r))" "0 \<le> r \<and> r \<le> 100"
  then show "confidenceScore (JObj kvs) = Inr (JNum (Fin r))"
    by (simp add: confidenceScore_def Math_min_def Math_max_def)
next
  assume "map_of kvs (str ''confidenceScore'') = Some (JNum PosInf)"
  then show "confidenceScore (JObj kvs) = Inr (JNum (Fin 100))"
    by (simp add: confidenceScore_def Math_min_def Math_max_def)
next
  assume "map_of kvs (str ''confidenceScore'') = Some (JNum NegInf)"
  then show "confidenceScore (JObj kvs) = Inr (JNum (Fin 0))"
    by (simp add: confidenceScore_def Math_min_def Math_max_def)
next
  assume "\<forall>x. map_of kvs (str ''confidenceScore'') \<noteq> Some (JNum x)"
  then show "confidenceScore (JObj kvs) = Inr JNull"
    by (auto simp add: confidenceScore_def split: option.splits json.splits)
qed

theorem confidenceScore_clamped_witness:
  "confidenceScore (JObj [(str ''confidenceScore'', JNum (Fin 150))]) = Inr (JNum (Fin 100)) \<and>
   confidenceScore (JObj [(str ''confidenceScore'', JStr (str ''high''))]) = Inr JNull \<and>
   confidenceScore (JObj [(str ''confidenceScore'', JNum (Fin (175 / 2)))]) = Inr (JNum (Fin (175 / 2))) \<and>
   confidenceScore (JObj [(str ''confidenceScore'', JNum (Fin (- 3)))]) = Inr (JNum (Fin 0)) \<and>
   confidenceScore (JObj [(str ''confidenceScore'', JNum PosInf)]) = Inr (JNum (Fin 100)) \<and>
   confidenceScore (JObj []) = Inr JNull"
  using confidenceScore_clamped [of "[(str ''confidenceScore'', JNum (Fin 150))]" 150]
    confidenceScore_clamped [of "[(str ''confidenceScore'', JStr (str ''high''))]"]
    confidenceScore_clamped [of "[(str ''confidenceScore'', JNum (Fin (175 / 2)))]" "175 / 2"]
    confidenceScore_clamped [of "[(str ''confidenceScore'', JNum (Fin (- 3)))]" "- 3"]
    confidenceScore_clamped [of "[(str ''confidenceScore'', JNum PosInf)]"]
    confidenceScore_clamped [of "[]"]
  by simp

lemma unat_u16: "unat (u16 c) = of_char c"
proof -
  have "(of_char c :: nat) < 2 ^ LENGTH(16)"
    by (rule less_trans [OF nat_of_char_less_256]) simp
  with refl show ?thesis
    unfolding u16_def by (rule of_nat_inverse)
qed

lemma u16_inject: "u16 c = u16 d \<longleftrightarrow> c = d"
proof
  assume "u16 c = u16 d"
  then have "unat (u16 c) = unat (u16 d)" by simp
  then have "(of_char c :: nat) = of_char d" by (simp only: unat_u16)
  then show "c = d" by simp
qed simp

lemma str_inject [simp]: "str a = str b \<longleftrightarrow> a = b"
  unfolding str_def by (rule inj_map_eq_map) (simp add: inj_def u16_inject)

lemma respond_success_Inr:
  assumes "respond_success E rid st kb ai response parsed w = (w', Inr res)"
  shows "status_code res = 200 \<and> ai_calls w' = ai_calls w \<and>
    (\<exists>d. extracted_data parsed ''rawText'' = Inr d \<and>
         get_prop (response_body res) ''data'' = Inr (Some d)) \<and>
    (\<exists>sc. confidenceScore parsed = Inr sc \<and>
         get_prop (response_body res) ''aiScore'' = Inr (Some sc)) \<and>
    (\<exists>stt. deriveStatus parsed = Inr stt \<and>
         get_prop (response_body res) ''status'' = Inr (Some (JStr stt)))"
  using assms
  by (auto simp add: respond_success_def Let_def Date_now_def log_event_def
      split: sum.splits prod.splits)

lemma try_block_Inr:
  assumes "try_block E req_body rid st w = (w', Inr res)"
  shows "(status_code res = 200 \<and>
      (\<exists>s response parsed. get_prop req_body ''base64Image'' = Inr (Some (JStr s)) \<and> s \<noteq> [] \<and>
         env_create E ExtractIdsWithConfidence (JStr s) = Inr response \<and>
         extractJSON (env_parse E) (output_text response) = Inr parsed \<and>
         (\<exists>w1 kb ai. respond_success E rid st kb ai response parsed w1 = (w', Inr res)))) \<or>
    (0 < clock_reads w' \<and>
      (res = error_response 400 rid ''Missing image'' (env_clock E (clock_reads w' - 1) - st) \<or>
       res = error_response 500 rid ''Invalid AI response format''
               (env_clock E (clock_reads w' - 1) - st)))"
  using assms
  by (auto simp add: try_block_def Let_def Date_now_def log_event_def call_model_def
      split: sum.splits prod.splits option.splits json.splits if_splits
      dest: respond_success_Inr)

lemma parse_slip_shape:
  assumes "parse_slip E req_body w = (w', res)"
  defines "rid \<equiv> str ''req_'' @ show_int (env_clock E (clock_reads w)) @ str ''_'' @ env_random E"
    and "st \<equiv> env_clock E (Suc (clock_reads w))"
  shows "(\<exists>w1. try_block E req_body rid st w1 = (w', Inr res)) \<or>
    (0 < clock_reads w' \<and>
     res = error_response 500 rid ''OCR processing failed'' (env_clock E (clock_reads w' - 1) - st))"
  using assms(1) unfolding rid_def st_def
  by (auto simp add: parse_slip_def Let_def Date_now_def log_event_def
      split: sum.splits prod.splits)

lemma error_response_fields:
  "status_code (error_response c rid msg ms) = c"
  "get_prop (response_body (error_response c rid msg ms)) ''requestId'' = Inr (Some (JStr rid))"
  "get_prop (response_body (error_response c rid msg ms)) ''status'' = Inr (Some (JStr (str ''error'')))"
  "get_prop (response_body (error_response c rid msg ms)) ''error'' = Inr (Some (JStr (str msg)))"
  "get_prop (response_body (error_response c rid msg ms)) ''processTimeMs'' = Inr (Some (num ms))"
  "get_prop (response_body (error_response c rid msg ms)) ''data'' = Inr None"
  by (simp_all add: error_response_def)

lemma plain_error_fields:
  "status_code (plain_error c msg) = c"
  "get_prop (response_body (plain_error c msg)) ''error'' = Inr (Some (JStr (str msg)))"
  "get_prop (response_body (plain_error c msg)) ''requestId'' = Inr None"
  "get_prop (response_body (plain_error c msg)) ''processTimeMs'' = Inr None"
  "get_prop (response_body (plain_error c msg)) ''data'' = Inr None"
  by (simp_all add: plain_error_def)

lemma parse_slip_missing:
  assumes "get_prop req_body ''base64Image'' = Inr b" "\<not> to_boolean b"
  shows "parse_slip E req_body w =
    (w\<lparr>clock_reads := clock_reads w + 3,
       console := console w @ [(INFO, ''parse_slip.start''), (WARN, ''parse_slip.missing_image'')]\<rparr>,
     error_response 400 (str ''req_'' @ show_int (env_clock E (clock_reads w)) @ str ''_'' @ env_random E)
       ''Missing image'' (env_clock E (clock_reads w + 2) - env_clock E (clock_reads w + 1)))"
  using assms
  by (simp add: parse_slip_def try_block_def Let_def Date_now_def log_event_def)

lemma parse_slip_server_js_missing:
  assumes "get_prop req_body ''base64Image'' = Inr b" "\<not> to_boolean b"
  shows "parse_slip_server_js E req_body w = (w, plain_error 400 ''Missing image'')"
  using assms
  by (cases b) (simp_all add: parse_slip_server_js_def try_block_server_js_def)




text \<open>
  Claim C10. A \<open>base64Image\<close> that is present but falsy (the empty string, zero, \<open>false\<close>
  or \<open>null\<close>) is treated as an absent one: the handler answers as it does to the same
  body without the property, which is the 400 "Missing image" response, and sends nothing
  to the model; so does the handler of \<open>server.js\<close>.
\<close>

theorem falsy_image_as_absent:
  "map_of kvs (str ''base64Image'') = Some v \<and>
   (v = JStr [] \<or> v = JNum (Fin 0) \<or> v = JBool False \<or> v = JNull) \<longrightarrow>
     parse_slip E (JObj kvs) w
       = parse_slip E (JObj (filter (\<lambda>kv. fst kv \<noteq> str ''base64Image'') kvs)) w \<and>
     status_code (snd (parse_slip E (JObj kvs) w)) = 400 \<and>
     get_prop (response_body (snd (parse_slip E (JObj kvs) w))) ''error''
       = Inr (Some (JStr (str ''Missing image''))) \<and>
     ai_calls (fst (parse_slip E (JObj kvs) w)) = ai_calls w \<and>
     parse_slip_server_js E (JObj kvs) w
       = parse_slip_server_js E (JObj (filter (\<lambda>kv. fst kv \<noteq> str ''base64Image'') kvs)) w \<and>
     snd (parse_slip_server_js E (JObj kvs) w) = plain_error 400 ''Missing image'' \<and>
     ai_calls (fst (parse_slip_server_js E (JObj kvs) w)) = ai_calls w"
proof
  assume h: "map_of kvs (str ''base64Image'') = Some v \<and>
   (v = JStr [] \<or> v = JNum (Fin 0) \<or> v = JBool False \<or> v = JNull)"
  then have a: "get_prop (JObj kvs) ''base64Image'' = Inr (Some v)" and f: "\<not> to_boolean (Some v)"
    by auto
  have "map_of (filter (\<lambda>kv. fst kv \<noteq> str ''base64Image'') kvs) (str ''base64Image'') = None"
    by (auto simp add: map_of_eq_None_iff)
  then have a': "get_prop (JObj (filter (\<lambda>kv. fst kv \<noteq> str ''base64Image'') kvs)) ''base64Image'' = Inr None"
    by simp
  have f': "\<not> to_boolean None" by simp
  show "parse_slip E (JObj kvs) w
       = parse_slip E (JObj (filter (\<lambda>kv. fst kv \<noteq> str ''base64Image'') kvs)) w \<and>
     status_code (snd (parse_slip E (JObj kvs) w)) = 400 \<and>
     get_prop (response_body (snd (parse_slip E (JObj kvs) w))) ''error''
       = Inr (Some (JStr (str ''Missing image''))) \<and>
     ai_calls (fst (parse_slip E (JObj kvs) w)) = ai_calls w \<and>
     parse_slip_server_js E (JObj kvs) w
       = parse_slip_server_js E (JObj (filter (\<lambda>kv. fst kv \<noteq> str ''base64Image'') kvs)) w \<and>
     snd (parse_slip_server_js E (JObj kvs) w) = plain_error 400 ''Missing image'' \<and>
     ai_calls (fst (parse_slip_server_js E (JObj kvs) w)) = ai_calls w"
    by (simp add: parse_slip_missing [OF a f] parse_slip_missing [OF a' f']
        parse_slip_server_js_missing [OF a f] parse_slip_server_js_missing [OF a' f']
        error_response_fields)
qed

theorem falsy_image_as_absent_witness:
  "map_of [(str ''base64Image'', JStr [])] (str ''base64Image'') = Some (JStr []) \<and>
   parse_slip env_T1 (JObj [(str ''base64Image'', JStr [])]) world0 = parse_slip env_T1 (JObj []) world0 \<and>
   status_code (snd (parse_slip env_T1 (JObj [(str ''base64Image'', JStr [])]) world0)) = 400 \<and>
   ai_calls (fst (parse_slip env_T1 (JObj [(str ''base64Image'', JStr [])]) world0)) = [] \<and>
   status_code (snd (parse_slip env_T1 (JObj [(str ''base64Image'', JNum (Fin 0))]) world0)) = 400 \<and>
   status_code (snd (parse_slip env_T1 (JObj [(str ''base64Image'', JBool False)]) world0)) = 400 \<and>
   status_code (snd (parse_slip env_T1 (JObj [(str ''base64Image'', JNull)]) world0)) = 400 \<and>
   snd (parse_slip_server_js env_T1 (JObj [(str ''base64Image'', JNull)]) world0)
     = plain_error 400 ''Missing image''"
proof -
  have f: "filter (\<lambda>kv. fst kv \<noteq> str ''base64Image'') [(str ''base64Image'', v)] = []" for v :: json
    by simp
  have w: "ai_calls world0 = []" by (simp add: world0_def)
  have m: "map_of [(str ''base64Image'', v)] (str ''base64Image'') = Some v" for v :: json
    by simp
  from falsy_image_as_absent [of "[(str ''base64Image'', JStr [])]" "JStr []" env_T1 world0] m
  have 1: "parse_slip env_T1 (JObj [(str ''base64Image'', JStr [])]) world0
       = parse_slip env_T1 (JObj (filter (\<lambda>kv. fst kv \<noteq> str ''base64Image'') [(str ''base64Image'', JStr [])])) world0"
    "status_code (snd (parse_slip env_T1 (JObj [(str ''base64Image'', JStr [])]) world0)) = 400"
    "ai_calls (fst (parse_slip env_T1 (JObj [(str ''base64Image'', JStr [])]) world0)) = ai_calls world0"
    by blast+
  from falsy_image_as_absent [of "[(str ''base64Image'', JNum (Fin 0))]" "JNum (Fin 0)" env_T1 world0] m
  have 2: "status_code (snd (parse_slip env_T1 (JObj [(str ''base64Image'', JNum (Fin 0))]) world0)) = 400"
    by blast
  from falsy_image_as_absent [of "[(str ''base64Image'', JBool False)]" "JBool False" env_T1 world0] m
  have 3: "status_code (snd (parse_slip env_T1 (JObj [(str ''base64Image'', JBool False)]) world0)) = 400"
    by blast
  from falsy_image_as_absent [of "[(str ''base64Image'', JNull)]" "JNull" env_T1 world0] m
  have 4: "status_code (snd (parse_slip env_T1 (JObj [(str ''base64Image'', JNull)]) world0)) = 400"
    "snd (parse_slip_server_js env_T1 (JObj [(str ''base64Image'', JNull)]) world0)
       = plain_error 400 ''Missing image''"
    by blast+
  from 1 2 3 4 m show ?thesis by (simp only: f w)
qed

lemma or_null_surfaces:
  "(to_boolean p \<longrightarrow> p = Some (or_null p)) \<and> (\<not> to_boolean p \<longrightarrow> or_null p = JNull) \<and>
   or_null p \<noteq> JStr [] \<and>
   (p = None \<or> p = Some JNull \<or> p = Some (JStr []) \<longrightarrow> or_null p = JNull)"
  by (cases p) auto

lemma extracted_data_Inr:
  assumes "extracted_data parsed rk = Inr d"
  shows "\<exists>t a r. get_prop parsed ''transactionId'' = Inr t \<and>
      get_prop parsed ''toAccountNumber'' = Inr a \<and> get_prop parsed ''rawText'' = Inr r \<and>
      d = JObj [(str ''transactionId'', or_null t), (str ''toAccountNumber'', or_null a),
                (str rk, or_null r)]"
  using assms by (auto simp add: extracted_data_def split: sum.splits)

lemma try_block_server_js_Inr:
  assumes "try_block_server_js E req_body w = (w', Inr res)"
  shows "res = plain_error 400 ''Missing image'' \<or> res = plain_error 500 ''Invalid AI response'' \<or>
    (status_code res = 200 \<and>
     (\<exists>img response parsed. get_prop req_body ''base64Image'' = Inr (Some img) \<and>
        env_create E ExtractIds img = Inr response \<and>
        extractJSON (env_parse E) (output_text response) = Inr parsed \<and>
        extracted_data parsed ''text'' = Inr (response_body res)))"
  using assms
  by (auto simp add: try_block_server_js_def extractJSON_def call_model_def
      split: sum.splits prod.splits option.splits if_splits)

lemma parse_slip_server_js_shape:
  assumes "parse_slip_server_js E req_body w = (w', res)"
  shows "(\<exists>w1. try_block_server_js E req_body w = (w1, Inr res)) \<or>
     res = plain_error 500 ''OCR processing failed''"
  using assms
  by (auto simp add: parse_slip_server_js_def split: sum.splits prod.splits)

lemma parse_slip_200:
  assumes "parse_slip E req_body w = (w', res)" "status_code res = 200"
  shows "\<exists>s response parsed d.
       get_prop req_body ''base64Image'' = Inr (Some (JStr s)) \<and>
       env_create E ExtractIdsWithConfidence (JStr s) = Inr response \<and>
       extractJSON (env_parse E) (output_text response) = Inr parsed \<and>
       extracted_data parsed ''rawText'' = Inr d \<and>
       get_prop (response_body res) ''data'' = Inr (Some d)"
proof -
  let ?rid = "str ''req_'' @ show_int (env_clock E (clock_reads w)) @ str ''_'' @ env_random E"
  let ?st = "env_clock E (Suc (clock_reads w))"
  from parse_slip_shape [OF assms(1)] assms(2)
  obtain w1 where "try_block E req_body ?rid ?st w1 = (w', Inr res)"
    by (auto simp add: error_response_fields)
  from try_block_Inr [OF this] assms(2)
  obtain s response parsed w2 kb ai where
    a: "get_prop req_body ''base64Image'' = Inr (Some (JStr s))"
       "env_create E ExtractIdsWithConfidence (JStr s) = Inr response"
       "extractJSON (env_parse E) (output_text response) = Inr parsed"
       "respond_success E ?rid ?st kb ai response parsed w2 = (w', Inr res)"
    by (auto simp add: error_response_fields)
  from respond_success_Inr [OF a(4)] a(1-3) show ?thesis by blast
qed

text \<open>
  Claim C5. In a successful response, each of the data fields \<open>transactionId\<close>,
  \<open>toAccountNumber\<close> and \<open>rawText\<close> (\<open>text\<close> in the response of \<open>server.js\<close>) is the
  value of that field in the parsed reply when that value is truthy, and \<open>null\<close>
  otherwise: an absent field, a \<open>null\<close> and an empty string all surface as \<open>null\<close>, and
  no field is an empty string.
\<close>

theorem success_data_fields:
  "(parse_slip E req_body w = (w', res) \<and> status_code res = 200 \<longrightarrow>
      (\<exists>s response parsed d.
         get_prop req_body ''base64Image'' = Inr (Some (JStr s)) \<and>
         env_create E ExtractIdsWithConfidence (JStr s) = Inr response \<and>
         extractJSON (env_parse E) (output_text response) = Inr parsed \<and>
         get_prop (response_body res) ''data'' = Inr (Some d) \<and>
         (\<forall>k \<in> {''transactionId'', ''toAccountNumber'', ''rawText''}.
            \<exists>p v. get_prop parsed k = Inr p \<and> get_prop d k = Inr (Some v) \<and>
              (to_boolean p \<longrightarrow> p = Some v) \<and> (\<not> to_boolean p \<longrightarrow> v = JNull) \<and>
              v \<noteq> JStr [] \<and>
              (p = None \<or> p = Some JNull \<or> p = Some (JStr []) \<longrightarrow> v = JNull)))) \<and>
   (parse_slip_server_js E req_body w = (w', res) \<and> status_code res = 200 \<longrightarrow>
      (\<exists>img response parsed.
         get_prop req_body ''base64Image'' = Inr (Some img) \<and>
         env_create E ExtractIds img = Inr response \<and>
         extractJSON (env_parse E) (output_text response) = Inr parsed \<and>
         (\<forall>(k, k') \<in> {(''transactionId'', ''transactionId''),
                       (''toAccountNumber'', ''toAccountNumber''), (''rawText'', ''text'')}.
            \<exists>p v. get_prop parsed k = Inr p \<and> get_prop (response_body res) k' = Inr (Some v) \<and>
              (to_boolean p \<longrightarrow> p = Some v) \<and> (\<not> to_boolean p \<longrightarrow> v = JNull) \<and>
              v \<noteq> JStr [] \<and>
              (p = None \<or> p = Some JNull \<or> p = Some (JStr []) \<longrightarrow> v = JNull))))"
proof (intro conjI impI)
  assume h: "parse_slip E req_body w = (w', res) \<and> status_code res = 200"
  from parse_slip_200 [of E req_body w w' res] h
  obtain s response parsed d where
    a: "get_prop req_body ''base64Image'' = Inr (Some (JStr s))"
       "env_create E ExtractIdsWithConfidence (JStr s) = Inr response"
       "extractJSON (env_parse E) (output_text response) = Inr parsed"
       "extracted_data parsed ''rawText'' = Inr d"
       "get_prop (response_body res) ''data'' = Inr (Some d)"
    by blast
  from extracted_data_Inr [OF a(4)] obtain t ac r where
    g: "get_prop parsed ''transactionId'' = Inr t" "get_prop parsed ''toAccountNumber'' = Inr ac"
       "get_prop parsed ''rawText'' = Inr r"
    and d: "d = JObj [(str ''transactionId'', or_null t), (str ''toAccountNumber'', or_null ac),
                (str ''rawText'', or_null r)]"
    by blast
  have "\<forall>k \<in> {''transactionId'', ''toAccountNumber'', ''rawText''}.
            \<exists>p v. get_prop parsed k = Inr p \<and> get_prop d k = Inr (Some v) \<and>
              (to_boolean p \<longrightarrow> p = Some v) \<and> (\<not> to_boolean p \<longrightarrow> v = JNull) \<and>
              v \<noteq> JStr [] \<and>
              (p = None \<or> p = Some JNull \<or> p = Some (JStr []) \<longrightarrow> v = JNull)"
    using g or_null_surfaces [of t] or_null_surfaces [of ac] or_null_surfaces [of r]
    by (simp add: d)
  with a(1,2,3,5) show "\<exists>s response parsed d.
         get_prop req_body ''base64Image'' = Inr (Some (JStr s)) \<and>
         env_create E ExtractIdsWithConfidence (JStr s) = Inr response \<and>
         extractJSON (env_parse E) (output_text response) = Inr parsed \<and>
         get_prop (response_body res) ''data'' = Inr (Some d) \<and>
         (\<forall>k \<in> {''transactionId'', ''toAccountNumber'', ''rawText''}.
            \<exists>p v. get_prop parsed k = Inr p \<and> get_prop d k = Inr (Some v) \<and>
              (to_boolean p \<longrightarrow> p = Some v) \<and> (\<not> to_boolean p \<longrightarrow> v = JNull) \<and>
              v \<noteq> JStr [] \<and>
              (p = None \<or> p = Some JNull \<or> p = Some (JStr []) \<longrightarrow> v = JNull))"
    by blast
next
  assume h: "parse_slip_server_js E req_body w = (w', res) \<and> status_code res = 200"
  with parse_slip_server_js_shape [of E req_body w w' res]
  obtain w1 where "try_block_server_js E req_body w = (w1, Inr res)"
    by (auto simp add: plain_error_fields)
  from try_block_server_js_Inr [OF this] h
  obtain img response parsed where
    a: "get_prop req_body ''base64Image'' = Inr (Some img)"
       "env_create E ExtractIds img = Inr response"
       "extractJSON (env_parse E) (output_text response) = Inr parsed"
       "extracted_data parsed ''text'' = Inr (response_body res)"
    by (auto simp add: plain_error_fields)
  from extracted_data_Inr [OF a(4)] obtain t ac r where
    g: "get_prop parsed ''transactionId'' = Inr t" "get_prop parsed ''toAccountNumber'' = Inr ac"
       "get_prop parsed ''rawText'' = Inr r"
    and d: "response_body res = JObj [(str ''transactionId'', or_null t),
                (str ''toAccountNumber'', or_null ac), (str ''text'', or_null r)]"
    by blast
  have "\<forall>(k, k') \<in> {(''transactionId'', ''transactionId''),
                       (''toAccountNumber'', ''toAccountNumber''), (''rawText'', ''text'')}.
            \<exists>p v. get_prop parsed k = Inr p \<and> get_prop (response_body res) k' = Inr (Some v) \<and>
              (to_boolean p \<longrightarrow> p = Some v) \<and> (\<not> to_boolean p \<longrightarrow> v = JNull) \<and>
              v \<noteq> JStr [] \<and>
              (p = None \<or> p = Some JNull \<or> p = Some (JStr []) \<longrightarrow> v = JNull)"
    using g or_null_surfaces [of t] or_null_surfaces [of ac] or_null_surfaces [of r]
    by (simp add: d)
  with a(1,2,3) show "\<exists>img response parsed.
         get_prop req_body ''base64Image'' = Inr (Some img) \<and>
         env_create E ExtractIds img = Inr response \<and>
         extractJSON (env_parse E) (output_text response) = Inr parsed \<and>
         (\<forall>(k, k') \<in> {(''transactionId'', ''transactionId''),
                       (''toAccountNumber'', ''toAccountNumber''), (''rawText'', ''text'')}.
            \<exists>p v. get_prop parsed k = Inr p \<and> get_prop (response_body res) k' = Inr (Some v) \<and>
              (to_boolean p \<longrightarrow> p = Some v) \<and> (\<not> to_boolean p \<longrightarrow> v = JNull) \<and>
              v \<noteq> JStr [] \<and>
              (p = None \<or> p = Some JNull \<or> p = Some (JStr []) \<longrightarrow> v = JNull))"
    by blast
qed

lemma str_Nil [simp]: "str s = [] \<longleftrightarrow> s = []"
  by (simp add: str_def)

lemma extractJSON_reply_T1:
  "extractJSON parse_T1 reply_T1 =
     Inr (JObj [(str ''transactionId'', JStr (str ''T1'')),
                (str ''toAccountNumber'', JStr (str ''A1''))])"
proof -
  have l: "LBRACE \<notin> set (str ''Sure! '')" and r: "RBRACE \<notin> set (str '' Thanks'')"
    by (simp_all add: str_def u16_def LBRACE_def RBRACE_def)
  from outer_braces_prose [OF l r]
  have \<open>match_braces (cleaned reply_T1) =
      Some (LBRACE # str ''"transactionId":"T1","toAccountNumber":"A1"'' @ [RBRACE])\<close>
    by (simp only: match_braces_outer cleaned_reply_T1)
  moreover have \<open>LBRACE # str ''"transactionId":"T1","toAccountNumber":"A1"'' @ [RBRACE]
      = str ''{"transactionId":"T1","toAccountNumber":"A1"}''\<close>
    by (simp add: str_def u16_def LBRACE_def RBRACE_def)
  ultimately show ?thesis
    by (simp add: extractJSON_def parse_T1_def)
qed

lemma extractJSON_reply_refusal:
  "extractJSON parse_T1 reply_refusal = Inl (Error (str ''No JSON object found in AI response''))"
proof -
  have "LBRACE \<notin> set reply_refusal"
    by (simp add: reply_refusal_def str_def u16_def LBRACE_def)
  with set_cleaned [of reply_refusal] have "LBRACE \<notin> set (cleaned reply_refusal)" by blast
  then have "match_braces (cleaned reply_refusal) = None"
    by (simp add: match_braces_outer outer_braces_def)
  then show ?thesis by (simp add: extractJSON_def)
qed

lemma show_int_stamp: "show_int 1700000000000 = str ''1700000000000''"
  by (simp add: show_int_def str_def u16_def)

lemma parse_slip_png_status: "status_code (snd (parse_slip env_T1 body_png world0)) = 200"
  by (simp add: parse_slip_def try_block_def respond_success_def Let_def Date_now_def
      log_event_def call_model_def env_T1_def world0_def body_png_def extractJSON_reply_T1
      deriveStatus_def confidenceScore_def extracted_data_def nullish_or_def)

theorem success_data_fields_witness:
  "status_code (snd (parse_slip env_T1 body_png world0)) = 200 \<and>
   (\<exists>d. get_prop (response_body (snd (parse_slip env_T1 body_png world0))) ''data'' = Inr (Some d) \<and>
        get_prop d ''transactionId'' = Inr (Some (JStr (str ''T1''))) \<and>
        get_prop d ''toAccountNumber'' = Inr (Some (JStr (str ''A1''))) \<and>
        get_prop d ''rawText'' = Inr (Some JNull))"
proof -
  let ?X = "parse_slip env_T1 body_png world0"
  have X: "?X = (fst ?X, snd ?X) \<and> status_code (snd ?X) = 200"
    by (simp add: parse_slip_png_status)
  from success_data_fields [of env_T1 body_png world0 "fst ?X" "snd ?X"] X
  obtain s response parsed d where
    a: "env_create env_T1 ExtractIdsWithConfidence (JStr s) = Inr response"
       "extractJSON (env_parse env_T1) (output_text response) = Inr parsed"
       "get_prop (response_body (snd ?X)) ''data'' = Inr (Some d)"
    and k: "\<forall>k \<in> {''transactionId'', ''toAccountNumber'', ''rawText''}.
            \<exists>p v. get_prop parsed k = Inr p \<and> get_prop d k = Inr (Some v) \<and>
              (to_boolean p \<longrightarrow> p = Some v) \<and> (\<not> to_boolean p \<longrightarrow> v = JNull) \<and>
              v \<noteq> JStr [] \<and>
              (p = None \<or> p = Some JNull \<or> p = Some (JStr []) \<longrightarrow> v = JNull)"
    by blast
  from a(1) have "output_text response = reply_T1" by (auto simp add: env_T1_def)
  with a(2) extractJSON_reply_T1 have p: "parsed =
     JObj [(str ''transactionId'', JStr (str ''T1'')), (str ''toAccountNumber'', JStr (str ''A1''))]"
    by (simp add: env_T1_def)
  from k have "\<exists>p v. get_prop parsed ''transactionId'' = Inr p \<and>
      get_prop d ''transactionId'' = Inr (Some v) \<and> (to_boolean p \<longrightarrow> p = Some v)"
    by blast
  with p have 1: "get_prop d ''transactionId'' = Inr (Some (JStr (str ''T1'')))"
    by auto
  from k have "\<exists>p v. get_prop parsed ''toAccountNumber'' = Inr p \<and>
      get_prop d ''toAccountNumber'' = Inr (Some v) \<and> (to_boolean p \<longrightarrow> p = Some v)"
    by blast
  with p have 2: "get_prop d ''toAccountNumber'' = Inr (Some (JStr (str ''A1'')))"
    by auto
  from k have "\<exists>p v. get_prop parsed ''rawText'' = Inr p \<and>
      get_prop d ''rawText'' = Inr (Some v) \<and> (\<not> to_boolean p \<longrightarrow> v = JNull)"
    by blast
  with p have 3: "get_prop d ''rawText'' = Inr (Some JNull)"
    by auto
  from X a(3) 1 2 3 show ?thesis by blast
qed

text \<open>
  Claim C6, as stated, fails on the handler of \<open>server.js\<close>: its answer to a request
  without an image is the error message alone.
\<close>

theorem server_js_error_body_counterexample:
  "status_code (snd (parse_slip_server_js env_T1 (JObj []) world0)) = 400 \<and>
   response_body (snd (parse_slip_server_js env_T1 (JObj []) world0))
     = JObj [(str ''error'', JStr (str ''Missing image''))] \<and>
   get_prop (response_body (snd (parse_slip_server_js env_T1 (JObj []) world0))) ''requestId''
     = Inr None \<and>
   get_prop (response_body (snd (parse_slip_server_js env_T1 (JObj []) world0))) ''processTimeMs''
     = Inr None"
  by (simp add: parse_slip_server_js_def try_block_server_js_def plain_error_def)

text \<open>
  Claim C6, amended. Every response of the handler with request identifiers that is not
  the successful one is one of the three error responses (400 "Missing image", 500 "Invalid
  AI response format", 500 "OCR processing failed"); its body has the status "error", the
  request identifier made at the start of the request, and as \<open>processTimeMs\<close> the last
  reading of the clock minus the reading taken as the start time. No response of the
  handler of \<open>server.js\<close> has a request identifier or a processing time.
\<close>

theorem error_responses_carry_id_and_time:
  "(parse_slip E req_body w = (w', res) \<and> status_code res \<noteq> 200 \<longrightarrow>
      (status_code res = 400 \<and>
         get_prop (response_body res) ''error'' = Inr (Some (JStr (str ''Missing image''))) \<or>
       status_code res = 500 \<and>
         get_prop (response_body res) ''error'' = Inr (Some (JStr (str ''Invalid AI response format''))) \<or>
       status_code res = 500 \<and>
         get_prop (response_body res) ''error'' = Inr (Some (JStr (str ''OCR processing failed'')))) \<and>
      get_prop (response_body res) ''status'' = Inr (Some (JStr (str ''error''))) \<and>
      get_prop (response_body res) ''requestId''
        = Inr (Some (JStr (str ''req_'' @ show_int (env_clock E (clock_reads w)) @ str ''_'' @ env_random E))) \<and>
      0 < clock_reads w' \<and>
      get_prop (response_body res) ''processTimeMs''
        = Inr (Some (num (env_clock E (clock_reads w' - 1) - env_clock E (Suc (clock_reads w)))))) \<and>
   (parse_slip_server_js E req_body w = (w', res) \<longrightarrow>
      get_prop (response_body res) ''requestId'' = Inr None \<and>
      get_prop (response_body res) ''processTimeMs'' = Inr None)"
proof (intro conjI impI)
  assume h: "parse_slip E req_body w = (w', res) \<and> status_code res \<noteq> 200"
  let ?rid = "str ''req_'' @ show_int (env_clock E (clock_reads w)) @ str ''_'' @ env_random E"
  let ?ms = "env_clock E (clock_reads w' - 1) - env_clock E (Suc (clock_reads w))"
  have "0 < clock_reads w' \<and>
    (res = error_response 400 ?rid ''Missing image'' ?ms \<or>
     res = error_response 500 ?rid ''Invalid AI response format'' ?ms \<or>
     res = error_response 500 ?rid ''OCR processing failed'' ?ms)"
  proof -
    from h parse_slip_shape [of E req_body w w' res]
    consider w1 where "try_block E req_body ?rid (env_clock E (Suc (clock_reads w))) w1 = (w', Inr res)"
      | "0 < clock_reads w' \<and> res = error_response 500 ?rid ''OCR processing failed'' ?ms"
      by blast
    then show ?thesis
    proof cases
      case 1
      from try_block_Inr [OF 1] h show ?thesis by blast
    next
      case 2
      then show ?thesis by blast
    qed
  qed
  then show
    "status_code res = 400 \<and>
         get_prop (response_body res) ''error'' = Inr (Some (JStr (str ''Missing image''))) \<or>
       status_code res = 500 \<and>
         get_prop (response_body res) ''error'' = Inr (Some (JStr (str ''Invalid AI response format''))) \<or>
       status_code res = 500 \<and>
         get_prop (response_body res) ''error'' = Inr (Some (JStr (str ''OCR processing failed'')))"
    "get_prop (response_body res) ''status'' = Inr (Some (JStr (str ''error'')))"
    "get_prop (response_body res) ''requestId'' = Inr (Some (JStr ?rid))"
    "0 < clock_reads w'"
    "get_prop (response_body res) ''processTimeMs'' = Inr (Some (num ?ms))"
    by (auto simp add: error_response_fields)
next
  assume h: "parse_slip_server_js E req_body w = (w', res)"
  have "get_prop (response_body res) ''requestId'' = Inr None \<and>
      get_prop (response_body res) ''processTimeMs'' = Inr None"
  proof -
    from parse_slip_server_js_shape [OF h]
    consider w1 where "try_block_server_js E req_body w = (w1, Inr res)"
      | "res = plain_error 500 ''OCR processing failed''"
      by blast
    then show ?thesis
    proof cases
      case 1
      from try_block_server_js_Inr [OF 1]
      consider "res = plain_error 400 ''Missing image''" | "res = plain_error 500 ''Invalid AI response''"
        | parsed where "extracted_data parsed ''text'' = Inr (response_body res)"
        by blast
      then show ?thesis
      proof cases
        case 3
        from extracted_data_Inr [OF 3] show ?thesis by auto
      qed (simp_all add: plain_error_fields)
    next
      case 2
      then show ?thesis by (simp add: plain_error_fields)
    qed
  qed
  then show "get_prop (response_body res) ''requestId'' = Inr None"
    "get_prop (response_body res) ''processTimeMs'' = Inr None"
    by simp_all
qed

lemma parse_slip_refusal:
  "snd (parse_slip env_refusal body_png world0)
     = error_response 500 (str ''req_1700000000000_k3x9q'') ''Invalid AI response format'' 21"
  by (simp add: parse_slip_def try_block_def Let_def Date_now_def log_event_def call_model_def
      env_refusal_def env_T1_def world0_def body_png_def extractJSON_reply_refusal show_int_stamp
      str_def)

lemma parse_slip_offline:
  "snd (parse_slip env_offline body_png world0)
     = error_response 500 (str ''req_1700000000000_k3x9q'') ''OCR processing failed'' 14"
  by (simp add: parse_slip_def try_block_def Let_def Date_now_def log_event_def call_model_def
      env_offline_def env_T1_def world0_def body_png_def show_int_stamp str_def)

theorem error_responses_carry_id_and_time_witness:
  "status_code (snd (parse_slip env_T1 (JObj []) world0)) = 400 \<and>
   get_prop (response_body (snd (parse_slip env_T1 (JObj []) world0))) ''requestId''
     = Inr (Some (JStr (str ''req_1700000000000_k3x9q''))) \<and>
   get_prop (response_body (snd (parse_slip env_T1 (JObj []) world0))) ''processTimeMs''
     = Inr (Some (num 7)) \<and>
   status_code (snd (parse_slip env_refusal body_png world0)) = 500 \<and>
   get_prop (response_body (snd (parse_slip env_refusal body_png world0))) ''requestId''
     = Inr (Some (JStr (str ''req_'' @ show_int (env_clock env_refusal 0) @ str ''_'' @ env_random env_refusal))) \<and>
   status_code (snd (parse_slip env_offline body_png world0)) = 500 \<and>
   get_prop (response_body (snd (parse_slip env_offline body_png world0))) ''requestId''
     = Inr (Some (JStr (str ''req_'' @ show_int (env_clock env_offline 0) @ str ''_'' @ env_random env_offline)))"
proof -
  let ?A = "parse_slip env_T1 (JObj []) world0"
  let ?B = "parse_slip env_refusal body_png world0"
  let ?C = "parse_slip env_offline body_png world0"
  have "status_code (snd ?A) \<noteq> 200"
    by (simp add: parse_slip_missing [where req_body = "JObj []" and b = None] error_response_fields)
  then have a: "?A = (fst ?A, snd ?A) \<and> status_code (snd ?A) \<noteq> 200" by simp
  have "status_code (snd ?B) \<noteq> 200"
    by (simp add: parse_slip_refusal error_response_fields)
  then have b: "?B = (fst ?B, snd ?B) \<and> status_code (snd ?B) \<noteq> 200" by simp
  have "status_code (snd ?C) \<noteq> 200"
    by (simp add: parse_slip_offline error_response_fields)
  then have c: "?C = (fst ?C, snd ?C) \<and> status_code (snd ?C) \<noteq> 200" by simp
  have w: "clock_reads world0 = 0" by (simp add: world0_def)
  have r: "clock_reads (fst ?A) = 3"
    by (simp add: parse_slip_missing [where req_body = "JObj []" and b = None] world0_def)
  from error_responses_carry_id_and_time [of env_T1 "JObj []" world0 "fst ?A" "snd ?A"] a
  have "get_prop (response_body (snd ?A)) ''requestId''
        = Inr (Some (JStr (str ''req_'' @ show_int (env_clock env_T1 (clock_reads world0)) @ str ''_'' @ env_random env_T1)))"
    "get_prop (response_body (snd ?A)) ''processTimeMs''
        = Inr (Some (num (env_clock env_T1 (clock_reads (fst ?A) - 1) - env_clock env_T1 (Suc (clock_reads world0)))))"
    by blast+
  then have 1: "get_prop (response_body (snd ?A)) ''requestId''
        = Inr (Some (JStr (str ''req_1700000000000_k3x9q'')))"
    "get_prop (response_body (snd ?A)) ''processTimeMs'' = Inr (Some (num 7))"
    unfolding w r by (simp_all add: env_T1_def show_int_stamp str_def)
  from error_responses_carry_id_and_time [of env_refusal body_png world0 "fst ?B" "snd ?B"] b
  have 2: "get_prop (response_body (snd ?B)) ''requestId''
        = Inr (Some (JStr (str ''req_'' @ show_int (env_clock env_refusal (clock_reads world0)) @ str ''_'' @ env_random env_refusal)))"
    by blast
  from error_responses_carry_id_and_time [of env_offline body_png world0 "fst ?C" "snd ?C"] c
  have 3: "get_prop (response_body (snd ?C)) ''requestId''
        = Inr (Some (JStr (str ''req_'' @ show_int (env_clock env_offline (clock_reads world0)) @ str ''_'' @ env_random env_offline)))"
    by blast
  have s: "status_code (snd ?A) = 400" "status_code (snd ?B) = 500" "status_code (snd ?C) = 500"
    by (simp_all add: parse_slip_missing [where req_body = "JObj []" and b = None] parse_slip_refusal parse_slip_offline
        error_response_fields)
  from 1 2 3 s show ?thesis by (simp only: w)
qed

lemma Math_round_quotient: "Math_round (of_nat (n * 3) / 4 / 1024) = (3 * int n + 2048) div 4096"
proof -
  have "(of_nat (n * 3) / 4 / 1024 + 1 / 2 :: rat) = of_int (3 * int n + 2048) / of_int 4096"
    by (simp add: field_simps)
  then show ?thesis
    unfolding Math_round_def by (simp only: floor_divide_of_int_eq)
qed

lemma semicolon_not_word: "\<not> is_word_char (u16 CHR '';'')"
  by (simp add: is_word_char_def u16_def)

lemma matches_at_head:
  assumes "matches_at (c # cs) s i"
  shows "i < length s \<and> s ! i = c"
proof -
  from assms have t: "take (Suc (length cs)) (drop i s) = c # cs"
    by (simp add: matches_at_def)
  then have "drop i s \<noteq> []" by auto
  then have l: "i < length s" by simp
  then have "drop i s = s ! i # drop (Suc i) s" by (simp add: Cons_nth_drop_Suc)
  with t l show ?thesis by simp
qed

lemma matches_at_base64_not_word:
  assumes "matches_at (str '';base64,'') s i"
  shows "i < length s \<and> \<not> is_word_char (s ! i)"
proof -
  have "str '';base64,'' = u16 CHR '';'' # str ''base64,''" by (simp add: str_def)
  with assms matches_at_head [of "u16 CHR '';''" "str ''base64,''" s i]
  show ?thesis by (simp add: semicolon_not_word)
qed

lemma backtrack_word_run:
  assumes "k \<le> length (takeWhile is_word_char (drop start s))"
  shows "backtrack_word s start k =
    (if 0 < k \<and> k = length (takeWhile is_word_char (drop start s))
        \<and> matches_at (str '';base64,'') s (start + k)
     then Some (start + k + 8) else None)"
  using assms
proof (induction k)
  case 0
  show ?case by simp
next
  case (Suc k)
  let ?n = "length (takeWhile is_word_char (drop start s))"
  show ?case
  proof (cases "Suc k = ?n")
    case True
    have "backtrack_word s start k = None"
    proof (cases "0 < k \<and> matches_at (str '';base64,'') s (start + k)")
      case False
      with Suc show ?thesis by auto
    next
      case m: True
      from True have "k < ?n" by simp
      then have "is_word_char (takeWhile is_word_char (drop start s) ! k)"
        using nth_mem set_takeWhileD by metis
      with \<open>k < ?n\<close> have "is_word_char (drop start s ! k)"
        by (simp add: takeWhile_nth)
      moreover from \<open>k < ?n\<close> have "k < length (drop start s)"
        using length_takeWhile_le [of is_word_char "drop start s"] by simp
      ultimately have "is_word_char (s ! (start + k))" by simp
      with matches_at_base64_not_word m show ?thesis by blast
    qed
    then have "backtrack_word s start (Suc k) =
        (if matches_at (str '';base64,'') s (start + Suc k) then Some (start + Suc k + 8) else None)"
      by simp
    then show ?thesis by (simp only: True [symmetric]) simp
  next
    case False
    with Suc.prems have lt: "Suc k < ?n" by simp
    then have "is_word_char (takeWhile is_word_char (drop start s) ! Suc k)"
      using nth_mem set_takeWhileD by metis
    with lt have "is_word_char (drop start s ! Suc k)"
      by (simp add: takeWhile_nth)
    moreover from lt have "Suc k < length (drop start s)"
      using length_takeWhile_le [of is_word_char "drop start s"] by simp
    ultimately have "is_word_char (s ! (start + Suc k))" by simp
    with matches_at_base64_not_word have "\<not> matches_at (str '';base64,'') s (start + Suc k)"
      by blast
    moreover from lt Suc.IH have "backtrack_word s start k = None" by simp
    ultimately show ?thesis using False by simp
  qed
qed

lemma data_prefix_end_eq:
  "data_prefix_end s =
    (let n = length (takeWhile is_word_char (drop 11 s))
     in if matches_at (str ''data:image/'') s 0 \<and> 0 < n \<and> matches_at (str '';base64,'') s (11 + n)
        then Some (11 + n + 8) else None)"
  by (simp add: data_prefix_end_def backtrack_word_run Let_def)

lemma takeWhile_word_run:
  assumes "list_all is_word_char w"
  shows "takeWhile is_word_char (w @ str '';base64,'' @ rest) = w"
proof -
  from assms have "\<forall>x \<in> set w. is_word_char x" by (simp add: list_all_iff)
  moreover have "str '';base64,'' @ rest = u16 CHR '';'' # (str ''base64,'' @ rest)"
    by (simp add: str_def)
  ultimately show ?thesis
    by (simp add: takeWhile_tail semicolon_not_word)
qed

lemma strip_data_prefix_hit:
  assumes "w \<noteq> []" "list_all is_word_char w"
  shows "strip_data_prefix (str ''data:image/'' @ w @ str '';base64,'' @ rest) = rest"
proof -
  let ?s = "str ''data:image/'' @ w @ str '';base64,'' @ rest"
  have l: "length (str ''data:image/'') = 11" "length (str '';base64,'') = 8"
    by (simp_all add: str_def)
  have d: "drop 11 ?s = w @ str '';base64,'' @ rest" using l by simp
  have n: "length (takeWhile is_word_char (drop 11 ?s)) = length w"
    by (simp only: d takeWhile_word_run [OF assms(2)])
  have m0: "matches_at (str ''data:image/'') ?s 0" using l by (simp add: matches_at_def)
  have m1: "matches_at (str '';base64,'') ?s (11 + length w)"
    using l by (simp add: matches_at_def)
  from assms(1) m0 m1 have "data_prefix_end ?s = Some (11 + length w + 8)"
    unfolding data_prefix_end_eq Let_def n by simp
  then show ?thesis using l by (simp add: strip_data_prefix_def)
qed

lemma strip_data_prefix_miss:
  assumes "\<not> (\<exists>w rest. w \<noteq> [] \<and> list_all is_word_char w \<and>
             s = str ''data:image/'' @ w @ str '';base64,'' @ rest)"
  shows "strip_data_prefix s = s"
proof (cases "data_prefix_end s")
  case None
  then show ?thesis by (simp add: strip_data_prefix_def)
next
  case (Some e)
  let ?w = "takeWhile is_word_char (drop 11 s)"
  from Some have m0: "matches_at (str ''data:image/'') s 0" and n: "?w \<noteq> []"
    and m1: "matches_at (str '';base64,'') s (11 + length ?w)"
    by (auto simp add: data_prefix_end_eq Let_def split: if_splits)
  have l: "length (str ''data:image/'') = 11" "length (str '';base64,'') = 8"
    by (simp_all add: str_def)
  from m0 l have a: "take 11 s = str ''data:image/''" by (simp add: matches_at_def)
  from m1 l have b: "take 8 (drop (11 + length ?w) s) = str '';base64,''"
    by (simp add: matches_at_def)
  have "drop 11 s = ?w @ dropWhile is_word_char (drop 11 s)" by simp
  also have "dropWhile is_word_char (drop 11 s) = drop (length ?w) (drop 11 s)"
    by (rule dropWhile_eq_drop)
  also have "\<dots> = drop (11 + length ?w) s" by (simp add: add.commute)
  also have "\<dots> = take 8 (drop (11 + length ?w) s) @ drop 8 (drop (11 + length ?w) s)"
    by (rule append_take_drop_id [symmetric])
  finally have "drop 11 s = ?w @ str '';base64,'' @ drop 8 (drop (11 + length ?w) s)"
    by (simp only: b)
  moreover have "s = take 11 s @ drop 11 s" by simp
  ultimately have "s = str ''data:image/'' @ ?w @ str '';base64,'' @ drop 8 (drop (11 + length ?w) s)"
    by (simp only: a)
  moreover have "list_all is_word_char ?w"
    by (auto simp add: list_all_iff dest: set_takeWhileD)
  ultimately show ?thesis using n assms by blast
qed

lemma estimateImageSizeKB_div:
  "estimateImageSizeKB s = (3 * int (length (strip_data_prefix s)) + 2048) div 4096"
  unfolding estimateImageSizeKB_def Let_def Math_round_quotient by simp

lemma strip_svg_data_uri: "strip_data_prefix svg_data_uri = svg_data_uri"
proof -
  have "data_prefix_end svg_data_uri = None"
    by (simp add: data_prefix_end_eq svg_data_uri_def str_def u16_def is_word_char_def
        matches_at_def)
  then show ?thesis by (simp add: strip_data_prefix_def)
qed

text \<open>
  Claim C8, as stated, fails on a data URI whose media type is not \<open>image/\<close> followed by
  word characters only: the prefix \<open>data:image/svg+xml;base64,\<close> is not stripped, and
  with 670 characters of base64 after it the estimate is 1, where the 670 characters
  alone give 0.
\<close>

theorem data_uri_not_stripped_counterexample:
  "estimateImageSizeKB (str ''data:image/svg+xml;base64,'' @ replicate 670 0x41) = 1 \<and>
   Math_round (of_nat (length (replicate 670 (0x41 :: unit16)) * 3) / 4 / 1024) = 0"
proof -
  have "length svg_data_uri = 696" by (simp add: svg_data_uri_def str_def)
  then have "estimateImageSizeKB svg_data_uri = 1"
    by (simp add: estimateImageSizeKB_div strip_svg_data_uri)
  moreover have "Math_round (of_nat (length (replicate 670 (0x41 :: unit16)) * 3) / 4 / 1024) = 0"
    unfolding Math_round_quotient by simp
  ultimately show ?thesis
    by (simp only: svg_data_uri_def)
qed

text \<open>
  Claim C8, amended. \<open>estimateImageSizeKB\<close> strips a leading prefix of the form
  \<open>data:image/\<close>, one or more word characters (letters, digits, underscore),
  \<open>;base64,\<close>, and no other prefix, and returns \<open>length * 3 / 4 / 1024\<close> of the
  remaining text rounded to the nearest integer, a half upwards: \<open>(3 * length + 2048) div
  4096\<close>. A remaining text of length 1368 gives 1.
\<close>

theorem estimateImageSizeKB_prefix:
  "(w \<noteq> [] \<and> list_all is_word_char w \<longrightarrow>
      estimateImageSizeKB (str ''data:image/'' @ w @ str '';base64,'' @ rest)
        = Math_round (of_nat (length rest * 3) / 4 / 1024)) \<and>
   (\<not> (\<exists>w rest. w \<noteq> [] \<and> list_all is_word_char w \<and>
           s = str ''data:image/'' @ w @ str '';base64,'' @ rest) \<longrightarrow>
      estimateImageSizeKB s = Math_round (of_nat (length s * 3) / 4 / 1024)) \<and>
   estimateImageSizeKB s = (3 * int (length (strip_data_prefix s)) + 2048) div 4096 \<and>
   (length (strip_data_prefix s) = 1368 \<longrightarrow> estimateImageSizeKB s = 1)"
proof (intro conjI impI)
  assume "w \<noteq> [] \<and> list_all is_word_char w"
  then show "estimateImageSizeKB (str ''data:image/'' @ w @ str '';base64,'' @ rest)
        = Math_round (of_nat (length rest * 3) / 4 / 1024)"
    by (simp add: estimateImageSizeKB_def strip_data_prefix_hit)
next
  assume "\<not> (\<exists>w rest. w \<noteq> [] \<and> list_all is_word_char w \<and>
           s = str ''data:image/'' @ w @ str '';base64,'' @ rest)"
  then have "strip_data_prefix s = s" by (rule strip_data_prefix_miss)
  then show "estimateImageSizeKB s = Math_round (of_nat (length s * 3) / 4 / 1024)"
    by (simp add: estimateImageSizeKB_def)
next
  show "estimateImageSizeKB s = (3 * int (length (strip_data_prefix s)) + 2048) div 4096"
    by (rule estimateImageSizeKB_div)
next
  assume "length (strip_data_prefix s) = 1368"
  then show "estimateImageSizeKB s = 1"
    by (simp add: estimateImageSizeKB_div)
qed

theorem estimateImageSizeKB_prefix_witness:
  "str ''png'' \<noteq> [] \<and> list_all is_word_char (str ''png'') \<and>
   estimateImageSizeKB (str ''data:image/'' @ str ''png'' @ str '';base64,'' @ replicate 1368 0x41) = 1 \<and>
   estimateImageSizeKB (str ''data:image/'' @ str ''png'' @ str '';base64,'' @ replicate 2048 0x41) = 2 \<and>
   length (strip_data_prefix (replicate 1368 0x41)) = 1368 \<and>
   estimateImageSizeKB (replicate 1368 0x41) = 1"
proof -
  have p: "str ''png'' \<noteq> [] \<and> list_all is_word_char (str ''png'')"
    by (simp add: str_def u16_def is_word_char_def)
  from estimateImageSizeKB_prefix [of "str ''png''" "replicate 1368 0x41"] p
  have 1: "estimateImageSizeKB (str ''data:image/'' @ str ''png'' @ str '';base64,'' @ replicate 1368 0x41)
      = Math_round (of_nat (length (replicate 1368 (0x41 :: unit16)) * 3) / 4 / 1024)"
    by blast
  from estimateImageSizeKB_prefix [of "str ''png''" "replicate 2048 0x41"] p
  have 2: "estimateImageSizeKB (str ''data:image/'' @ str ''png'' @ str '';base64,'' @ replicate 2048 0x41)
      = Math_round (of_nat (length (replicate 2048 (0x41 :: unit16)) * 3) / 4 / 1024)"
    by blast
  have "data_prefix_end (replicate 1368 0x41) = None"
    by (simp add: data_prefix_end_def matches_at_def str_def u16_def)
  then have 3: "length (strip_data_prefix (replicate 1368 0x41)) = 1368"
    by (simp add: strip_data_prefix_def)
  with estimateImageSizeKB_prefix [of _ _ "replicate 1368 0x41"]
  have 4: "estimateImageSizeKB (replicate 1368 0x41) = 1" by blast
  have "Math_round (of_nat (length (replicate 1368 (0x41 :: unit16)) * 3) / 4 / 1024) = 1"
    "Math_round (of_nat (length (replicate 2048 (0x41 :: unit16)) * 3) / 4 / 1024) = 2"
    unfolding Math_round_quotient by simp_all
  with 1 2 have
    "estimateImageSizeKB (str ''data:image/'' @ str ''png'' @ str '';base64,'' @ replicate 1368 0x41) = 1"
    "estimateImageSizeKB (str ''data:image/'' @ str ''png'' @ str '';base64,'' @ replicate 2048 0x41) = 2"
    by (simp_all only:)
  with p 3 4 show ?thesis by blast
qed

lemma pow2_pos: "0 < pow2 e"
  by (simp add: pow2_def)

lemma pow2_nat: "0 \<le> e \<Longrightarrow> pow2 e = 2 ^ nat e"
  by (simp add: pow2_def)

lemma pow2_neg: "e \<le> 0 \<Longrightarrow> pow2 e = 1 / 2 ^ nat (- e)"
  by (cases "e = 0") (simp_all add: pow2_def)

lemma pow2_powi: "pow2 e = 2 powi e"
  by (simp add: pow2_def power_int_def power_one_over [symmetric] inverse_eq_divide)

lemma pow2_add: "pow2 (a + b) = pow2 a * pow2 b"
  by (simp add: pow2_powi power_int_add)

lemma pow2_mono: "a \<le> b \<Longrightarrow> pow2 a \<le> pow2 b"
  by (simp add: pow2_powi power_int_increasing)

lemma pow2_less_imp: "pow2 a < pow2 b \<Longrightarrow> a < b"
  using pow2_mono [of b a] by (cases "a < b") auto

lemma ilog2_bounds:
  assumes "0 < x"
  shows "pow2 (ilog2 x) \<le> x \<and> x < pow2 (ilog2 x + 1)"
proof (cases "1 \<le> x")
  case True
  define n where "n = \<lfloor>x\<rfloor>"
  from True have n: "0 < n" by (simp add: n_def)
  from bitlen_bounds [OF n] have b: "2 ^ nat (bitlen n - 1) \<le> n" "n < 2 ^ nat (bitlen n)"
    by simp_all
  from n have b1: "1 \<le> bitlen n" by (simp add: bitlen_alt_def)
  from True have e: "ilog2 x = bitlen n - 1" by (simp add: ilog2_def n_def)
  have "pow2 (bitlen n - 1) = of_int (2 ^ nat (bitlen n - 1))"
    using b1 by (simp add: pow2_nat)
  also have "\<dots> \<le> of_int n" using b(1) by (simp only: of_int_le_iff)
  also have "\<dots> \<le> x" by (simp add: n_def)
  finally have lo: "pow2 (bitlen n - 1) \<le> x" .
  from b(2) have "n + 1 \<le> 2 ^ nat (bitlen n)" by simp
  then have "(of_int (n + 1) :: rat) \<le> of_int (2 ^ nat (bitlen n))"
    by (simp only: of_int_le_iff)
  moreover have "x < of_int (n + 1)" unfolding n_def by linarith
  ultimately have "x < of_int (2 ^ nat (bitlen n))" by simp
  also have "\<dots> = pow2 (bitlen n)" using b1 by (simp add: pow2_nat)
  finally have "x < pow2 (bitlen n - 1 + 1)" by simp
  with lo e show ?thesis by simp
next
  case False
  define y where "y = 1 / x"
  define m where "m = \<lceil>y\<rceil> - 1"
  from False assms have y1: "1 < y" by (simp add: y_def)
  then have "2 \<le> \<lceil>y\<rceil>" by (simp add: le_ceiling_iff) 
  then have m: "0 < m" by (simp add: m_def)
  have my: "of_int m < y" "y \<le> of_int m + 1"
    using ceiling_correct [of y] by (simp_all add: m_def)
  from bitlen_bounds [OF m] have b: "2 ^ nat (bitlen m - 1) \<le> m" "m < 2 ^ nat (bitlen m)"
    by simp_all
  from m have b1: "1 \<le> bitlen m" by (simp add: bitlen_alt_def)
  from False have e: "ilog2 x = - bitlen m" by (simp add: ilog2_def m_def y_def)
  from b(2) have "m + 1 \<le> 2 ^ nat (bitlen m)" by simp
  then have "(of_int (m + 1) :: rat) \<le> of_int (2 ^ nat (bitlen m))"
    by (simp only: of_int_le_iff)
  with my(2) have yu: "y \<le> 2 ^ nat (bitlen m)" by simp
  have "(2::rat) ^ nat (bitlen m - 1) = of_int (2 ^ nat (bitlen m - 1))" by simp
  also from b(1) have "\<dots> \<le> of_int m" by (simp only: of_int_le_iff)
  also note my(1)
  finally have yl: "2 ^ nat (bitlen m - 1) < y" .
  have xy: "x = 1 / y" using assms by (simp add: y_def)
  have "pow2 (- bitlen m) = 1 / 2 ^ nat (bitlen m)"
    using b1 by (simp add: pow2_neg)
  also have "\<dots> \<le> 1 / y" using yu y1 by (simp add: frac_le)
  finally have lo: "pow2 (- bitlen m) \<le> x" by (simp only: xy)
  have "1 / y < 1 / 2 ^ nat (bitlen m - 1)"
    using yl by (simp add: frac_less2)
  also have "\<dots> = pow2 (- bitlen m + 1)"
    using b1 pow2_neg [of "- bitlen m + 1"] by simp
  finally have "x < pow2 (- bitlen m + 1)" by (simp only: xy)
  with lo e show ?thesis by simp
qed

lemma round_half_even_err: "\<bar>of_int (round_half_even y) - y\<bar> \<le> 1 / 2"
proof -
  have "of_int \<lfloor>y\<rfloor> \<le> y" "y < of_int \<lfloor>y\<rfloor> + 1" by linarith+
  then show ?thesis
    by (auto simp add: round_half_even_def Let_def)
qed

lemma to_double_err:
  assumes "pow2 (- 1022) \<le> \<bar>x\<bar>"
  shows "\<bar>to_double x - x\<bar> \<le> \<bar>x\<bar> / 2 ^ 53"
proof -
  from assms pow2_pos [of "- 1022"] have x0: "0 < \<bar>x\<bar>" by linarith
  then have nz: "x \<noteq> 0" by simp
  define e where "e = ilog2 \<bar>x\<bar>"
  from ilog2_bounds [OF x0] have eb: "pow2 e \<le> \<bar>x\<bar>" "\<bar>x\<bar> < pow2 (e + 1)"
    by (simp_all add: e_def)
  from assms eb(2) have "pow2 (- 1022) < pow2 (e + 1)" by simp
  then have "- 1022 < e + 1" by (rule pow2_less_imp)
  then have m: "max e (- 1022) = e" by simp
  define ulp where "ulp = pow2 (e - 52)"
  have up: "0 < ulp" by (simp add: ulp_def pow2_pos)
  have td: "to_double x = of_int (round_half_even (x / ulp)) * ulp"
    using nz m by (simp add: to_double_def Let_def e_def [symmetric] ulp_def)
  have "to_double x - x = (of_int (round_half_even (x / ulp)) - x / ulp) * ulp"
    using up by (simp add: td field_simps)
  then have "\<bar>to_double x - x\<bar> = \<bar>of_int (round_half_even (x / ulp)) - x / ulp\<bar> * ulp"
    using up by (simp add: abs_mult)
  also have "\<dots> \<le> 1 / 2 * ulp"
    using round_half_even_err [of "x / ulp"] up by (simp add: mult_right_mono)
  also have "\<dots> = pow2 e / 2 ^ 53"
  proof -
    have "pow2 e = pow2 (e - 52) * pow2 52" using pow2_add [of "e - 52" 52] by simp
    then show ?thesis by (simp add: ulp_def pow2_def)
  qed
  also have "\<dots> \<le> \<bar>x\<bar> / 2 ^ 53" using eb(1) by (simp add: divide_right_mono)
  finally show ?thesis .
qed

lemma tiny_normal: "pow2 (- 1022) \<le> 1 / 10 ^ 9"
proof -
  have "pow2 (- 1022) \<le> pow2 (- 30)" by (rule pow2_mono) simp
  also have "\<dots> \<le> 1 / 10 ^ 9" by (simp add: pow2_def)
  finally show ?thesis .
qed

lemma to_double_zero: "to_double 0 = 0"
  by (simp add: to_double_def)

lemma to_double_bounds:
  assumes "y = 0 \<or> 1 / 10 ^ 9 \<le> y"
  shows "y * (1 - 1 / 2 ^ 53) \<le> to_double y \<and> to_double y \<le> y * (1 + 1 / 2 ^ 53)"
proof (cases "y = 0")
  case True
  then show ?thesis by (simp add: to_double_zero)
next
  case False
  with assms have y: "1 / 10 ^ 9 \<le> y" by simp
  then have y0: "0 < y" by (rule less_le_trans [rotated]) simp
  from y tiny_normal have "pow2 (- 1022) \<le> \<bar>y\<bar>" by simp
  from to_double_err [OF this] y0 have "\<bar>to_double y - y\<bar> \<le> y / 2 ^ 53" by simp
  then have "y - y / 2 ^ 53 \<le> to_double y" "to_double y \<le> y + y / 2 ^ 53" by linarith+
  then show ?thesis by (simp add: algebra_simps)
qed

lemma scaled_cost_bounds:
  assumes c: "1 / 10 ^ 5 \<le> c" 
  shows "of_nat n / 1000 * c * ((1 - 1 / 2 ^ 53) * (1 - 1 / 2 ^ 53))
           \<le> to_double (to_double (of_nat n / 1000) * c) \<and>
         to_double (to_double (of_nat n / 1000) * c)
           \<le> of_nat n / 1000 * c * ((1 + 1 / 2 ^ 53) * (1 + 1 / 2 ^ 53)) \<and>
         (n = 0 \<longrightarrow> to_double (to_double (of_nat n / 1000) * c) = 0) \<and>
         (0 < n \<longrightarrow> 1 / 10 ^ 9 \<le> to_double (to_double (of_nat n / 1000) * c))"
proof (cases "n = 0")
  case True
  then show ?thesis by (simp add: to_double_zero)
next
  case False
  define x :: rat where "x = of_nat n / 1000"
  define lo :: rat where "lo = 1 - 1 / 2 ^ 53"
  define hi :: rat where "hi = 1 + 1 / 2 ^ 53"
  have lo: "0 < lo" "9 / 10 \<le> lo" and hi: "0 < hi" by (simp_all add: lo_def hi_def)
  from c have c0: "0 < c" by (rule less_le_trans [rotated]) simp
  from False have "1 \<le> (of_nat n :: rat)" by simp
  then have x: "1 / 1000 \<le> x" by (simp add: x_def)
  then have x0: "0 < x" by (rule less_le_trans [rotated]) simp
  from x have "x = 0 \<or> 1 / 10 ^ 9 \<le> x" by simp
  from to_double_bounds [OF this]
  have a: "x * lo \<le> to_double x" "to_double x \<le> x * hi" by (simp_all add: lo_def hi_def)
  have "1 / 1000 * (9 / 10) \<le> x * lo" using x lo by (intro mult_mono) simp_all
  with a(1) have a1: "9 / 10000 \<le> to_double x" by simp
  then have a0: "0 < to_double x" by (rule less_le_trans [rotated]) simp
  have "9 / 10000 * (1 / 10 ^ 5) \<le> to_double x * c" using a1 c by (intro mult_mono) simp_all
  then have p9: "9 / 10 ^ 9 \<le> to_double x * c" by simp
  then have p: "1 / 10 ^ 9 \<le> to_double x * c" by simp
  then have "to_double x * c = 0 \<or> 1 / 10 ^ 9 \<le> to_double x * c" by simp
  from to_double_bounds [OF this]
  have b: "to_double x * c * lo \<le> to_double (to_double x * c)"
    "to_double (to_double x * c) \<le> to_double x * c * hi"
    by (simp_all add: lo_def hi_def)
  have "x * c * (lo * lo) = (x * lo) * c * lo" by simp
  also have "\<dots> \<le> to_double x * c * lo"
    using a(1) c0 lo(1) by (intro mult_right_mono) simp_all
  also note b(1)
  finally have 1: "x * c * (lo * lo) \<le> to_double (to_double x * c)" .
  note b(2)
  also have "to_double x * c * hi \<le> (x * hi) * c * hi"
    using a(2) c0 hi by (intro mult_right_mono) simp_all
  also have "\<dots> = x * c * (hi * hi)" by simp
  finally have 2: "to_double (to_double x * c) \<le> x * c * (hi * hi)" .
  have "9 / 10 ^ 9 * (9 / 10) \<le> to_double x * c * lo"
    using p9 lo by (intro mult_mono) simp_all
  with b(1) have 3: "1 / 10 ^ 9 \<le> to_double (to_double x * c)" by simp
  from 1 2 3 False show ?thesis
    by (simp add: x_def lo_def hi_def)
qed

lemma cost_rates:
  "COST_PER_1K_INPUT_TOKENS = 5534023222112865 / 2 ^ 65"
  "COST_PER_1K_OUTPUT_TOKENS = 5534023222112865 / 2 ^ 63"
  by code_simp+

lemma rate_bounds:
  "1 / 10 ^ 5 \<le> COST_PER_1K_INPUT_TOKENS" "1 / 10 ^ 5 \<le> COST_PER_1K_OUTPUT_TOKENS"
  "1 / 1000 * COST_PER_1K_INPUT_TOKENS * ((1 + 1 / 2 ^ 53) * (1 + 1 / 2 ^ 53)) * (1 + 1 / 2 ^ 53) * 10 ^ 6
     \<le> 3 / 20 * (1 + 1 / 10 ^ 15)"
  "1 / 1000 * COST_PER_1K_OUTPUT_TOKENS * ((1 + 1 / 2 ^ 53) * (1 + 1 / 2 ^ 53)) * (1 + 1 / 2 ^ 53) * 10 ^ 6
     \<le> 12 / 20 * (1 + 1 / 10 ^ 15)"
  "3 / 20 * (1 - 1 / 10 ^ 15)
     \<le> 1 / 1000 * COST_PER_1K_INPUT_TOKENS * ((1 - 1 / 2 ^ 53) * (1 - 1 / 2 ^ 53)) * (1 - 1 / 2 ^ 53) * 10 ^ 6"
  "12 / 20 * (1 - 1 / 10 ^ 15)
     \<le> 1 / 1000 * COST_PER_1K_OUTPUT_TOKENS * ((1 - 1 / 2 ^ 53) * (1 - 1 / 2 ^ 53)) * (1 - 1 / 2 ^ 53) * 10 ^ 6"
  unfolding cost_rates by simp_all

lemma round_near:
  fixes v :: rat and k :: nat
  assumes "\<bar>v - of_nat k / 20\<bar> \<le> 1 / 1000"
  shows "\<bar>(of_int \<lfloor>v + 1 / 2\<rfloor> :: rat) - of_nat k / 20\<bar> \<le> 1 / 2"
    and "k mod 20 \<noteq> 10 \<Longrightarrow> \<lfloor>v + 1 / 2\<rfloor> = \<lfloor>(of_nat k :: rat) / 20 + 1 / 2\<rfloor>"
proof -
  define n where "n = \<lfloor>v + 1 / 2\<rfloor>"
  have n: "of_int n \<le> v + 1 / 2" "v + 1 / 2 < of_int n + 1"
    unfolding n_def by linarith+
  from assms have v: "of_nat k / 20 - 1 / 1000 \<le> v" "v \<le> of_nat k / 20 + 1 / 1000"
    by linarith+
  from n(1) v(2) have "(of_int (20 * n) :: rat) < of_int (int k + 11)" by simp
  then have u: "20 * n < int k + 11" by (simp only: of_int_less_iff)
  from n(2) v(1) have "(of_int (int k - 11) :: rat) < of_int (20 * n)" by simp
  then have l: "int k - 11 < 20 * n" by (simp only: of_int_less_iff)
  from u l have "20 * n - int k \<le> 10" "- 10 \<le> 20 * n - int k" by linarith+
  then have "(of_int (20 * n - int k) :: rat) \<le> of_int 10"
    "(of_int (- 10) :: rat) \<le> of_int (20 * n - int k)"
    by (simp_all only: of_int_le_iff)
  then have "20 * (of_int n :: rat) - of_nat k \<le> 10" "- 10 \<le> 20 * (of_int n :: rat) - of_nat k"
    by simp_all
  then have "\<bar>(of_int n :: rat) - of_nat k / 20\<bar> \<le> 1 / 2" by arith
  then show "\<bar>(of_int \<lfloor>v + 1 / 2\<rfloor> :: rat) - of_nat k / 20\<bar> \<le> 1 / 2"
    by (simp only: n_def)
  assume t: "k mod 20 \<noteq> 10"
  define q where "q = \<lfloor>(of_nat k :: rat) / 20 + 1 / 2\<rfloor>"
  have "(of_nat k :: rat) / 20 + 1 / 2 = of_int (int k + 10) / of_int 20" by simp
  then have q: "q = (int k + 10) div 20"
    unfolding q_def by (simp only: floor_divide_of_int_eq)
  from t have r: "1 \<le> (int k + 10) mod 20" "(int k + 10) mod 20 \<le> 19" by presburger+
  have kq: "int k + 10 = 20 * q + (int k + 10) mod 20" by (simp add: q)
  from kq r have "20 * q + 1 \<le> int k + 10" "int k + 10 \<le> 20 * q + 19" by linarith+
  then have "(of_int (20 * q + 1) :: rat) \<le> of_int (int k + 10)"
    "(of_int (int k + 10) :: rat) \<le> of_int (20 * q + 19)"
    by (simp_all only: of_int_le_iff)
  then have "of_int q + 1 / 20 \<le> (of_nat k :: rat) / 20 + 1 / 2"
    "(of_nat k :: rat) / 20 + 1 / 2 \<le> of_int q + 19 / 20"
    by simp_all
  with v have "of_int q \<le> v + 1 / 2" "v + 1 / 2 < of_int q + 1" by linarith+
  then have "\<lfloor>v + 1 / 2\<rfloor> = q" by (rule floor_unique)
  then show "\<lfloor>v + 1 / 2\<rfloor> = \<lfloor>(of_nat k :: rat) / 20 + 1 / 2\<rfloor>" by (simp add: q_def)
qed

lemma double_sum_near:
  fixes i j :: nat
  assumes "i \<le> 10 ^ 12" "j \<le> 10 ^ 12"
  defines "s \<equiv> to_double
      (to_double (to_double (of_nat i / 1000) * COST_PER_1K_INPUT_TOKENS) +
       to_double (to_double (of_nat j / 1000) * COST_PER_1K_OUTPUT_TOKENS))"
  shows "0 \<le> s \<and> \<bar>s * 10 ^ 6 - of_nat (3 * i + 12 * j) / 20\<bar> \<le> 1 / 1000"
proof -
  define c1 where "c1 = COST_PER_1K_INPUT_TOKENS"
  define c2 where "c2 = COST_PER_1K_OUTPUT_TOKENS"
  define lo :: rat where "lo = 1 - 1 / 2 ^ 53"
  define hi :: rat where "hi = 1 + 1 / 2 ^ 53"
  define b where "b = to_double (to_double (of_nat i / 1000) * c1)"
  define d where "d = to_double (to_double (of_nat j / 1000) * c2)"
  define x :: rat where "x = of_nat i"
  define y :: rat where "y = of_nat j"
  define K :: rat where "K = of_nat (3 * i + 12 * j) / 20"
  have lo: "0 < lo" and hi: "0 < hi" by (simp_all add: lo_def hi_def)
  from assms(1,2) have "(of_nat i :: rat) \<le> of_nat (10 ^ 12)" "(of_nat j :: rat) \<le> of_nat (10 ^ 12)"
    by (simp_all only: of_nat_le_iff)
  then have xy: "0 \<le> x" "0 \<le> y" "x \<le> 10 ^ 12" "y \<le> 10 ^ 12"
    by (simp_all add: x_def y_def)
  have K: "K = 3 / 20 * x + 12 / 20 * y" by (simp add: K_def x_def y_def)
  note rb = rate_bounds [folded c1_def c2_def lo_def hi_def]
  from scaled_cost_bounds [OF rate_bounds(1), of i]
  have b: "x / 1000 * c1 * (lo * lo) \<le> b" "b \<le> x / 1000 * c1 * (hi * hi)"
    "i = 0 \<longrightarrow> b = 0" "0 < i \<longrightarrow> 1 / 10 ^ 9 \<le> b"
    by (simp_all add: b_def c1_def lo_def hi_def x_def)
  from scaled_cost_bounds [OF rate_bounds(2), of j]
  have d: "y / 1000 * c2 * (lo * lo) \<le> d" "d \<le> y / 1000 * c2 * (hi * hi)"
    "j = 0 \<longrightarrow> d = 0" "0 < j \<longrightarrow> 1 / 10 ^ 9 \<le> d"
    by (simp_all add: d_def c2_def lo_def hi_def y_def)
  have b0: "0 \<le> b"
  proof (cases "i = 0")
    case True
    with b(3) show ?thesis by simp
  next
    case False
    with b(4) have "1 / 10 ^ 9 \<le> b" by simp
    then show ?thesis by (rule order_trans [rotated]) simp
  qed
  have d0: "0 \<le> d"
  proof (cases "j = 0")
    case True
    with d(3) show ?thesis by simp
  next
    case False
    with d(4) have "1 / 10 ^ 9 \<le> d" by simp
    then show ?thesis by (rule order_trans [rotated]) simp
  qed
  have "b + d = 0 \<or> 1 / 10 ^ 9 \<le> b + d"
  proof (cases "i = 0 \<and> j = 0")
    case True
    with b(3) d(3) show ?thesis by simp
  next
    case False
    then have "1 / 10 ^ 9 \<le> b \<or> 1 / 10 ^ 9 \<le> d" using b(4) d(4) by auto
    with b0 d0 show ?thesis by linarith
  qed
  from to_double_bounds [OF this]
  have t: "(b + d) * lo \<le> to_double (b + d)" "to_double (b + d) \<le> (b + d) * hi"
    by (simp_all add: lo_def hi_def)
  have s: "s = to_double (b + d)" by (simp add: s_def b_def d_def c1_def c2_def)
  from b0 d0 lo have "0 \<le> (b + d) * lo" by simp
  with t(1) have s0: "0 \<le> s" by (simp add: s)
  have "s * 10 ^ 6 \<le> (b + d) * hi * 10 ^ 6" using t(2) by (simp add: s)
  also have "\<dots> \<le> (x / 1000 * c1 * (hi * hi) + y / 1000 * c2 * (hi * hi)) * hi * 10 ^ 6"
    using b(2) d(2) hi by (intro mult_right_mono add_mono) simp_all
  also have "\<dots> = x * (1 / 1000 * c1 * (hi * hi) * hi * 10 ^ 6)
       + y * (1 / 1000 * c2 * (hi * hi) * hi * 10 ^ 6)"
    by (simp add: algebra_simps)
  also have "\<dots> \<le> x * (3 / 20 * (1 + 1 / 10 ^ 15)) + y * (12 / 20 * (1 + 1 / 10 ^ 15))"
    using rb(3,4) xy(1,2) by (intro add_mono mult_left_mono)
  also have "\<dots> = K + K / 10 ^ 15" unfolding K by (simp add: field_simps)
  also have "\<dots> \<le> K + 1 / 1000" using xy by (simp add: K)
  finally have up: "s * 10 ^ 6 \<le> K + 1 / 1000" .
  have "K - 1 / 1000 \<le> K - K / 10 ^ 15" using xy by (simp add: K)
  also have "\<dots> = x * (3 / 20 * (1 - 1 / 10 ^ 15)) + y * (12 / 20 * (1 - 1 / 10 ^ 15))"
    unfolding K by (simp add: field_simps)
  also have "\<dots> \<le> x * (1 / 1000 * c1 * (lo * lo) * lo * 10 ^ 6)
       + y * (1 / 1000 * c2 * (lo * lo) * lo * 10 ^ 6)"
    using rb(5,6) xy(1,2) by (intro add_mono mult_left_mono)
  also have "\<dots> = (x / 1000 * c1 * (lo * lo) + y / 1000 * c2 * (lo * lo)) * lo * 10 ^ 6"
    by (simp add: algebra_simps)
  also have "\<dots> \<le> (b + d) * lo * 10 ^ 6"
    using b(1) d(1) lo by (intro mult_right_mono add_mono) simp_all
  also have "\<dots> \<le> s * 10 ^ 6" using t(1) by (simp add: s)
  finally have low: "K - 1 / 1000 \<le> s * 10 ^ 6" .
  from up low have "\<bar>s * 10 ^ 6 - K\<bar> \<le> 1 / 1000" by linarith
  with s0 show ?thesis by (simp add: K_def)
qed

lemma to_double_samples:
  "to_double (1 / 10) = 3602879701896397 / 2 ^ 55"
  "to_double 2000 = 2000"
  "to_double (1 / 2) = 1 / 2"
  "to_double (6 / 10000) = 5534023222112865 / 2 ^ 63"
  by code_simp+

lemma scale_six:
  fixes N R :: rat
  assumes "\<bar>N - R * 10 ^ 6\<bar> \<le> 1 / 2"
  shows "\<bar>N / 10 ^ 6 - R\<bar> \<le> 1 / (2 * 10 ^ 6)"
proof -
  from assms have "- (1 / 2) \<le> N - R * 10 ^ 6" "N - R * 10 ^ 6 \<le> 1 / 2"
    by linarith+
  then have "R * 10 ^ 6 - 1 / 2 \<le> N" "N \<le> R * 10 ^ 6 + 1 / 2" by linarith+
  then have "(R * 10 ^ 6 - 1 / 2) / 10 ^ 6 \<le> N / 10 ^ 6" "N / 10 ^ 6 \<le> (R * 10 ^ 6 + 1 / 2) / 10 ^ 6"
    by (simp_all add: divide_right_mono)
  then have "R - 1 / (2 * 10 ^ 6) \<le> N / 10 ^ 6" "N / 10 ^ 6 \<le> R + 1 / (2 * 10 ^ 6)"
    by (simp_all add: diff_divide_distrib add_divide_distrib)
  then show ?thesis by linarith
qed

lemma reference_cost_twentieths:
  "reference_cost i j * 10 ^ 6 = of_nat (3 * i + 12 * j) / 20"
  by (simp add: reference_cost_def field_simps)

text \<open>
  Claim C7, as stated, fails where the exact value lies halfway between two numbers of six
  decimals. For 10 input tokens and no output tokens the exact value is 0.0000015, which
  rounds to 0.000002 (half up, and half to even as well); the doubles give
  \<open>0.01 * 0.00015\<close> a little below 0.0000015, and the result is 0.000001.
\<close>

theorem calcTokenCost_tie_counterexample:
  "reference_cost 10 0 = 15 / 10 ^ 7 \<and>
   round6 (reference_cost 10 0) = 2 / 10 ^ 6 \<and>
   calcTokenCost 10 0 = to_double (1 / 10 ^ 6) \<and>
   calcTokenCost 10 0 \<noteq> to_double (round6 (reference_cost 10 0))"
  by code_simp

lemma calcTokenCost_near:
  assumes "i \<le> 10 ^ 12" "j \<le> 10 ^ 12"
  shows "\<exists>n. calcTokenCost i j = to_double (of_int n / 10 ^ 6) \<and>
           \<bar>of_int n / 10 ^ 6 - reference_cost i j\<bar> \<le> 1 / (2 * 10 ^ 6) \<and>
           ((3 * i + 12 * j) mod 20 \<noteq> 10 \<longrightarrow> of_int n / 10 ^ 6 = round6 (reference_cost i j))"
proof -
  define s where "s = to_double
      (to_double (to_double (of_nat i / 1000) * COST_PER_1K_INPUT_TOKENS) +
       to_double (to_double (of_nat j / 1000) * COST_PER_1K_OUTPUT_TOKENS))"
  from assms double_sum_near [of i j]
  have s: "0 \<le> s" "\<bar>s * 10 ^ 6 - of_nat (3 * i + 12 * j) / 20\<bar> \<le> 1 / 1000"
    by (simp_all add: s_def)
  define n where "n = \<lfloor>s * 10 ^ 6 + 1 / 2\<rfloor>"
  from s(1) have c: "calcTokenCost i j = to_double (of_int n / 10 ^ 6)"
    by (simp add: calcTokenCost_def Let_def toFixed6_def s_def [symmetric] n_def)
  from round_near(1) [OF s(2)]
  have "\<bar>(of_int n :: rat) - reference_cost i j * 10 ^ 6\<bar> \<le> 1 / 2"
    by (simp only: n_def reference_cost_twentieths)
  then have e: "\<bar>of_int n / 10 ^ 6 - reference_cost i j\<bar> \<le> 1 / (2 * 10 ^ 6)"
    by (rule scale_six)
  have "of_int n / 10 ^ 6 = round6 (reference_cost i j)" if "(3 * i + 12 * j) mod 20 \<noteq> 10"
  proof -
    from round_near(2) [OF s(2) that]
    have "n = \<lfloor>reference_cost i j * 10 ^ 6 + 1 / 2\<rfloor>"
      by (simp only: n_def reference_cost_twentieths)
    then show ?thesis by (simp add: round6_def)
  qed
  with c e show ?thesis by blast
qed

lemma round6_reference_2000_500: "round6 (reference_cost 2000 500) = 6 / 10000"
proof -
  have r: "reference_cost 2000 500 = 6 / 10000"
    by (simp add: reference_cost_def)
  have "\<lfloor>(6 / 10000 :: rat) * 10 ^ 6 + 1 / 2\<rfloor> = 600" by (rule floor_unique) simp_all
  then show ?thesis unfolding round6_def r by simp
qed

text \<open>
  Claim C7, amended. For token counts up to \<open>10 ^ 12\<close>, \<open>calcTokenCost\<close> returns the
  double nearest to a number \<open>n / 10 ^ 6\<close> that lies within half of \<open>10 ^ -6\<close> of
  \<open>(inputTokens / 1000) * 0.00015 + (outputTokens / 1000) * 0.0006\<close>; unless that exact
  value is halfway between two numbers of six decimals, which is when
  \<open>3 * inputTokens + 12 * outputTokens\<close> leaves 10 modulo 20, the number is the exact
  value rounded to six decimals. 2000 and 500 tokens give exactly 0.0006.
\<close>

theorem calcTokenCost_nearest:
  "(i \<le> 10 ^ 12 \<and> j \<le> 10 ^ 12 \<longrightarrow>
      (\<exists>n. calcTokenCost i j = to_double (of_int n / 10 ^ 6) \<and>
           \<bar>of_int n / 10 ^ 6 - reference_cost i j\<bar> \<le> 1 / (2 * 10 ^ 6)) \<and>
      ((3 * i + 12 * j) mod 20 \<noteq> 10 \<longrightarrow>
         calcTokenCost i j = to_double (round6 (reference_cost i j)))) \<and>
   calcTokenCost 2000 500 = to_double (6 / 10000)"
proof (intro conjI impI)
  assume h: "i \<le> 10 ^ 12 \<and> j \<le> 10 ^ 12"
  with calcTokenCost_near [of i j] obtain n where
    n: "calcTokenCost i j = to_double (of_int n / 10 ^ 6)"
       "\<bar>of_int n / 10 ^ 6 - reference_cost i j\<bar> \<le> 1 / (2 * 10 ^ 6)"
       "(3 * i + 12 * j) mod 20 \<noteq> 10 \<longrightarrow> of_int n / 10 ^ 6 = round6 (reference_cost i j)"
    by blast
  from n(1,2) show "\<exists>n. calcTokenCost i j = to_double (of_int n / 10 ^ 6) \<and>
           \<bar>of_int n / 10 ^ 6 - reference_cost i j\<bar> \<le> 1 / (2 * 10 ^ 6)"
    by blast
  assume "(3 * i + 12 * j) mod 20 \<noteq> 10"
  with n(1,3) show "calcTokenCost i j = to_double (round6 (reference_cost i j))"
    by simp
next
  have "(3 * 2000 + 12 * 500) mod 20 \<noteq> (10 :: nat)" by simp
  with calcTokenCost_near [of 2000 500] obtain n where
    "calcTokenCost 2000 500 = to_double (of_int n / 10 ^ 6)"
    "of_int n / 10 ^ 6 = round6 (reference_cost 2000 500)"
    by auto
  then show "calcTokenCost 2000 500 = to_double (6 / 10000)"
    by (simp only: round6_reference_2000_500)
qed

theorem calcTokenCost_nearest_witness:
  "(2000 :: nat) \<le> 10 ^ 12 \<and> (500 :: nat) \<le> 10 ^ 12 \<and> (3 * 2000 + 12 * 500) mod 20 \<noteq> (10 :: nat) \<and>
   round6 (reference_cost 2000 500) = 6 / 10000 \<and>
   calcTokenCost 2000 500 = to_double (6 / 10000) \<and>
   (\<exists>n. calcTokenCost 10 0 = to_double (of_int n / 10 ^ 6) \<and>
        \<bar>of_int n / 10 ^ 6 - reference_cost 10 0\<bar> \<le> 1 / (2 * 10 ^ 6))"
proof -
  have a: "(2000 :: nat) \<le> 10 ^ 12 \<and> (500 :: nat) \<le> 10 ^ 12" by simp
  have b: "(3 * 2000 + 12 * 500) mod 20 \<noteq> (10 :: nat)" by simp
  note r = round6_reference_2000_500
  from calcTokenCost_nearest [of 2000 500] a b
  have "calcTokenCost 2000 500 = to_double (round6 (reference_cost 2000 500))" by blast
  then have 1: "calcTokenCost 2000 500 = to_double (6 / 10000)" by (simp only: r)
  have "(10 :: nat) \<le> 10 ^ 12 \<and> (0 :: nat) \<le> 10 ^ 12" by simp
  with calcTokenCost_nearest [of 10 0]
  have 2: "\<exists>n. calcTokenCost 10 0 = to_double (of_int n / 10 ^ 6) \<and>
        \<bar>of_int n / 10 ^ 6 - reference_cost 10 0\<bar> \<le> 1 / (2 * 10 ^ 6)"
    by blast
  from a b r 1 2 show ?thesis by blast
qed

end
